theory Spec2Isabelle
  imports Complex_Main "HOL-Library.Word" "HOL-Library.Sublist" "HOL-Library.AList"
begin

section \<open>JavaScript primitives used by the sources\<close>

text \<open>
  Texts are HOL strings: a character stands for the UTF-16 code unit of the same number,
  so the model covers the texts whose code units are below 256. Numbers that the
  sources use as integers (lengths, indices, counters, timestamps in milliseconds) are
  \<open>int\<close> or \<open>nat\<close>.
\<close>

definition isWhiteSpace :: "char \<Rightarrow> bool" where
  \<comment> \<open>the WhiteSpace and LineTerminator code units below 256 that \<open>String.prototype.trim\<close> removes\<close>
  "isWhiteSpace c = (of_char c \<in> {9, 10, 11, 12, 13, 32, 160 :: nat})"

definition trimStart :: "string \<Rightarrow> string" where
  "trimStart s = dropWhile isWhiteSpace s"

definition trimEnd :: "string \<Rightarrow> string" where
  "trimEnd s = rev (dropWhile isWhiteSpace (rev s))"

definition trim :: "string \<Rightarrow> string" where
  "trim s = trimEnd (trimStart s)"

definition lowerChar :: "char \<Rightarrow> char" where
  \<comment> \<open>\<open>toLowerCase\<close> on one code unit below 256: A-Z and the Latin-1 capitals\<close>
  "lowerChar c =
     (let n = (of_char c :: nat)
      in if (65 \<le> n \<and> n \<le> 90) \<or> (192 \<le> n \<and> n \<le> 222 \<and> n \<noteq> 215)
         then char_of (n + 32) else c)"

definition toLowerCase :: "string \<Rightarrow> string" where
  "toLowerCase s = map lowerChar s"

definition clampIndex :: "int \<Rightarrow> nat \<Rightarrow> nat" where
  \<comment> \<open>how \<open>slice\<close> reads an index: a negative one counts from the end, both are clamped\<close>
  "clampIndex i n = (if i < 0 then nat (max (int n + i) 0) else min (nat i) n)"

definition slice :: "int \<Rightarrow> int \<Rightarrow> 'a list \<Rightarrow> 'a list" where
  \<comment> \<open>\<open>xs.slice(start, end)\<close>\<close>
  "slice start end xs =
     (let n = length xs; a = clampIndex start n; b = clampIndex end n
      in take (b - a) (drop a xs))"

definition sliceFrom :: "int \<Rightarrow> 'a list \<Rightarrow> 'a list" where
  \<comment> \<open>\<open>xs.slice(start)\<close>\<close>
  "sliceFrom start xs = drop (clampIndex start (length xs)) xs"

definition toInt32 :: "int \<Rightarrow> int" where
  \<comment> \<open>ToInt32: the value modulo \<open>2 ^ 32\<close>, read as two's complement\<close>
  "toInt32 x = sint (word_of_int x :: 32 word)"

definition shiftLeft :: "int \<Rightarrow> nat \<Rightarrow> int" where
  \<comment> \<open>\<open>x << k\<close> on an int32 (\<open>k < 32\<close>)\<close>
  "shiftLeft x k = sint (push_bit k (word_of_int x :: 32 word))"

definition digitChar :: "nat \<Rightarrow> char" where
  \<comment> \<open>the digit of value \<open>d < 36\<close>: 0-9, then a-z\<close>
  "digitChar d = (if d < 10 then char_of (48 + d) else char_of (87 + d))"

fun toStringRadix :: "nat \<Rightarrow> nat \<Rightarrow> string" where
  \<comment> \<open>\<open>n.toString(radix)\<close> for a natural number \<open>n\<close> and \<open>2 \<le> radix \<le> 36\<close>\<close>
  "toStringRadix radix n =
     (if n < radix \<or> radix < 2 then [digitChar n]
      else toStringRadix radix (n div radix) @ [digitChar (n mod radix)])"

declare toStringRadix.simps [simp del]

definition numberToString :: "int \<Rightarrow> string" where
  \<comment> \<open>how a template literal prints an integer\<close>
  "numberToString i =
     (if i < 0 then CHR ''-'' # toStringRadix 10 (nat (- i)) else toStringRadix 10 (nat i))"

section \<open>String hash and connection fingerprint\<close>

subsection \<open>utils/requestUtils.ts\<close>

fun hashLoop :: "int \<Rightarrow> string \<Rightarrow> int" where
  \<comment> \<open>the \<open>for\<close> loop of \<open>createSimpleHash\<close>, from the current index on\<close>
  "hashLoop hash [] = hash"
| "hashLoop hash (c # cs) =
     (let char = int (of_char c);
          hash1 = (shiftLeft hash 5 - hash) + char;
          hash2 = toInt32 hash1
      in hashLoop hash2 cs)"

definition createSimpleHash :: "string \<Rightarrow> string" where
  "createSimpleHash str = toStringRadix 36 (nat \<bar>hashLoop 0 str\<bar>)"

definition orUnknown :: "string option \<Rightarrow> string" where
  \<comment> \<open>\<open>x || 'unknown'\<close>: null, undefined and the empty string are falsy\<close>
  "orUnknown x = (case x of None \<Rightarrow> ''unknown'' | Some s \<Rightarrow> if s = [] then ''unknown'' else s)"

definition getClientConnectionFingerprint :: "string \<Rightarrow> string option \<Rightarrow> string" where
  "getClientConnectionFingerprint ipAddress userAgent =
     (let ipHash = createSimpleHash (orUnknown (Some ipAddress));
          uaHash = createSimpleHash (orUnknown userAgent)
      in ipHash @ ''_'' @ uaHash)"

subsection \<open>SessionStorage: the private hash and the fingerprint key\<close>

fun storageHashLoop :: "int \<Rightarrow> string \<Rightarrow> int" where
  "storageHashLoop hash [] = hash"
| "storageHashLoop hash (c # cs) =
     (let char = int (of_char c);
          hash1 = (shiftLeft hash 5 - hash) + char;
          hash2 = toInt32 hash1
      in storageHashLoop hash2 cs)"

definition storageCreateSimpleHash :: "string \<Rightarrow> string" where
  "storageCreateSimpleHash str = toStringRadix 36 (nat \<bar>storageHashLoop 0 str\<bar>)"

definition storageFingerprint :: "string \<Rightarrow> string option \<Rightarrow> string" where
  \<comment> \<open>the key computed by \<open>getOrCreateClientConnection\<close> and \<open>getClientConnectionSessions\<close>\<close>
  "storageFingerprint ipAddress userAgent =
     (let ipHash = storageCreateSimpleHash (orUnknown (Some ipAddress));
          uaHash = storageCreateSimpleHash (orUnknown userAgent)
      in ipHash @ ''_'' @ uaHash)"

section \<open>Chunk merging (services/chatService.ts, RAGProcessingService)\<close>

fun overlapSearch :: "string \<Rightarrow> string \<Rightarrow> nat \<Rightarrow> nat" where
  \<comment> \<open>the \<open>for\<close> loop of \<open>findOverlap\<close>: \<open>len\<close> runs from its third argument down to 1\<close>
  "overlapSearch text1Trimmed text2Trimmed 0 = 0"
| "overlapSearch text1Trimmed text2Trimmed (Suc n) =
     (let len = Suc n;
          suffixText = sliceFrom (- int len) text1Trimmed;
          prefixText = slice 0 (int len) text2Trimmed
      in if toLowerCase suffixText = toLowerCase prefixText then len
         else overlapSearch text1Trimmed text2Trimmed n)"

definition findOverlap :: "string \<Rightarrow> string \<Rightarrow> nat" where
  "findOverlap text1 text2 =
     (let text1Trimmed = trim text1;
          text2Trimmed = trim text2;
          maxPossibleOverlap = min (length text1Trimmed) (length text2Trimmed)
      in overlapSearch text1Trimmed text2Trimmed maxPossibleOverlap)"

definition mergeChunks :: "string \<Rightarrow> string \<Rightarrow> string" where
  "mergeChunks chunk1 chunk2 =
     (let overlapLength = findOverlap chunk1 chunk2
      in if overlapLength > 0
         then (let chunk1Trimmed = trim chunk1;
                   chunk1WithoutOverlap = slice 0 (- int overlapLength) chunk1Trimmed
               in chunk1WithoutOverlap @ chunk2)
         else trim chunk1 @ '' '' @ chunk2)"

definition overlapAt :: "string \<Rightarrow> string \<Rightarrow> nat \<Rightarrow> bool" where
  \<comment> \<open>the last \<open>l\<close> characters of \<open>a\<close> equal, ignoring case, the first \<open>l\<close> characters of \<open>b\<close>\<close>
  "overlapAt a b l = (toLowerCase (drop (length a - l) a) = toLowerCase (take l b))"

section \<open>Session storage (services/SessionStorage.ts)\<close>

text \<open>
  \<open>new Date()\<close> reads a clock. The storage carries the clock as a function from the
  number of earlier reads to the time read, in milliseconds, so that every property
  holds for every behaviour of the clock. The two JavaScript maps are association
  lists in insertion order: \<open>AList.update\<close> replaces the value of a key in place and
  appends a new key, as \<open>Map.prototype.set\<close> does. The connection index
  (\<open>clientConnections\<close>) is not read or written by the operations below and is left out.
\<close>

datatype message = HumanMessage string | AIMessage string | SystemMessage string

datatype sessionType = general | rag

record sessionMetadata =
  userId :: "string option"
  createdAt :: int
  lastActive :: int
  userAgent :: "string option"
  ipAddress :: "string option"
  sessionType :: sessionType
  custom :: "(string \<times> string) list" \<comment> \<open>the nested \<open>metadata\<close> record\<close>

record session =
  session_id :: string
  messages :: "message list"
  metadata :: sessionMetadata

record userSessionData =
  user_userId :: string
  sessionIds :: "string list"
  user_createdAt :: int
  user_lastActive :: int

record storage =
  sessions :: "(string \<times> session) list"
  userSessions :: "(string \<times> userSessionData) list"
  maxMessages :: int
  clock :: "nat \<Rightarrow> int"
  reads :: nat

definition newStorage :: "int \<Rightarrow> (nat \<Rightarrow> int) \<Rightarrow> storage" where
  \<comment> \<open>\<open>new SessionStorage(maxMessages)\<close>\<close>
  "newStorage n clk =
     \<lparr>sessions = [], userSessions = [], maxMessages = n, clock = clk, reads = 0\<rparr>"

definition sessionStorage :: "(nat \<Rightarrow> int) \<Rightarrow> storage" where
  \<comment> \<open>\<open>export const sessionStorage = new SessionStorage(4)\<close>, the only storage the module
     builds (the class is not exported), under the clock \<open>clk\<close>\<close>
  "sessionStorage clk = newStorage 4 clk"

definition newDate :: "storage \<Rightarrow> int \<times> storage" where
  "newDate st = (clock st (reads st), st\<lparr>reads := Suc (reads st)\<rparr>)"

definition getSession :: "storage \<Rightarrow> string \<Rightarrow> session option" where
  "getSession st sessionId = map_of (sessions st) sessionId"

definition associateSessionWithUser :: "string \<Rightarrow> string \<Rightarrow> storage \<Rightarrow> storage" where
  "associateSessionWithUser sessionId uid st =
     (let (userData, st1) =
            (case map_of (userSessions st) uid of
               Some d \<Rightarrow> (d, st)
             | None \<Rightarrow>
                 (let (t1, s1) = newDate st; (t2, s2) = newDate s1
                  in (\<lparr>user_userId = uid, sessionIds = [],
                        user_createdAt = t1, user_lastActive = t2\<rparr>, s2)));
          userData1 =
            (if sessionId \<in> set (sessionIds userData) then userData
             else userData\<lparr>sessionIds := sessionIds userData @ [sessionId]\<rparr>);
          (t3, st2) = newDate st1
      in st2\<lparr>userSessions :=
               AList.update uid (userData1\<lparr>user_lastActive := t3\<rparr>) (userSessions st2)\<rparr>)"

definition associateIfUser :: "string \<Rightarrow> string option \<Rightarrow> storage \<Rightarrow> storage" where
  \<comment> \<open>\<open>if (userId) associateSessionWithUser(sessionId, userId)\<close>: the empty string is falsy\<close>
  "associateIfUser sessionId uid st =
     (case uid of
        None \<Rightarrow> st
      | Some u \<Rightarrow> if u = [] then st else associateSessionWithUser sessionId u st)"

definition createSession ::
  "string \<Rightarrow> string option \<Rightarrow> (string \<times> string) list option \<Rightarrow> storage \<Rightarrow> session \<times> storage" where
  "createSession sessionId uid additionalMetadata st =
     (let (t1, st1) = newDate st;
          (t2, st2) = newDate st1;
          session =
            \<lparr>session_id = sessionId, messages = [],
             metadata = \<lparr>userId = uid, createdAt = t1, lastActive = t2,
                         userAgent = None, ipAddress = None, sessionType = general,
                         custom = (case additionalMetadata of None \<Rightarrow> [] | Some m \<Rightarrow> m)\<rparr>\<rparr>;
          st3 = st2\<lparr>sessions := AList.update sessionId session (sessions st2)\<rparr>
      in (session, associateIfUser sessionId uid st3))"

definition saveSession :: "session \<Rightarrow> storage \<Rightarrow> storage" where
  "saveSession session st =
     (let (t, st1) = newDate st;
          session1 = session\<lparr>metadata := (metadata session)\<lparr>lastActive := t\<rparr>\<rparr>;
          st2 = st1\<lparr>sessions := AList.update (session_id session1) session1 (sessions st1)\<rparr>
      in associateIfUser (session_id session1) (userId (metadata session1)) st2)"

fun matchWrapped :: "string \<Rightarrow> string option" where
  \<comment> \<open>\<open>content.match(/\$([^$]+)\$/)\<close>: the group of the leftmost match, if there is a match.
     At a dollar sign the group is the longest run of other characters after it, which
     must be non-empty and followed by a dollar sign; otherwise the search moves on.\<close>
  "matchWrapped [] = None"
| "matchWrapped (c # cs) =
     (if c = CHR ''$''
      then (let body = takeWhile (\<lambda>x. x \<noteq> CHR ''$'') cs;
                rest = dropWhile (\<lambda>x. x \<noteq> CHR ''$'') cs
            in if body \<noteq> [] \<and> rest \<noteq> [] then Some body else matchWrapped cs)
      else matchWrapped cs)"

definition extractQueryFromMessage :: "string \<Rightarrow> string" where
  "extractQueryFromMessage content =
     (case matchWrapped content of Some q \<Rightarrow> trim q | None \<Rightarrow> content)"

definition trimHistory :: "storage \<Rightarrow> session \<Rightarrow> session" where
  "trimHistory st session =
     (if int (length (messages session)) > maxMessages st
      then session\<lparr>messages := sliceFrom (- maxMessages st) (messages session)\<rparr>
      else session)"

definition cleanMessage :: "message \<Rightarrow> message" where
  \<comment> \<open>the message that \<open>addMessage\<close> stores\<close>
  "cleanMessage message =
     (case message of
        HumanMessage c \<Rightarrow> HumanMessage (extractQueryFromMessage c)
      | _ \<Rightarrow> message)"

definition addMessage :: "string \<Rightarrow> message \<Rightarrow> storage \<Rightarrow> storage" where
  "addMessage sessionId message st =
     (let (session, st1) =
            (case getSession st sessionId of
               Some s \<Rightarrow> (s, st)
             | None \<Rightarrow> createSession sessionId None None st);
          cleanedMessage = cleanMessage message;
          session1 = session\<lparr>messages := messages session @ [cleanedMessage]\<rparr>;
          session2 = trimHistory st1 session1
      in saveSession session2 st1)"

definition getMessages :: "storage \<Rightarrow> string \<Rightarrow> message list" where
  "getMessages st sessionId =
     (case getSession st sessionId of Some s \<Rightarrow> messages s | None \<Rightarrow> [])"

definition getMetadata :: "storage \<Rightarrow> string \<Rightarrow> sessionMetadata option" where
  "getMetadata st sessionId = map_option metadata (getSession st sessionId)"

fun addMessages :: "(string \<times> message) list \<Rightarrow> storage \<Rightarrow> storage" where
  \<comment> \<open>a sequence of \<open>addMessage\<close> calls, in order\<close>
  "addMessages [] st = st"
| "addMessages ((sessionId, message) # calls) st =
     addMessages calls (addMessage sessionId message st)"

fun sweepInactive :: "int \<Rightarrow> int \<Rightarrow> string list \<Rightarrow> storage \<Rightarrow> nat \<Rightarrow> storage \<times> nat" where
  \<comment> \<open>the \<open>for\<close> loop of \<open>clearInactiveSessions\<close> over the entries still to visit\<close>
  "sweepInactive now inactiveThresholdMs [] st clearedCount = (st, clearedCount)"
| "sweepInactive now inactiveThresholdMs (k # ks) st clearedCount =
     (case map_of (sessions st) k of
        None \<Rightarrow> sweepInactive now inactiveThresholdMs ks st clearedCount
      | Some session \<Rightarrow>
          (let lastActiveTime = lastActive (metadata session);
               inactiveTime = now - lastActiveTime
           in if inactiveTime > inactiveThresholdMs
              then sweepInactive now inactiveThresholdMs ks
                     (saveSession (session\<lparr>messages := []\<rparr>) st) (Suc clearedCount)
              else sweepInactive now inactiveThresholdMs ks st clearedCount))"

definition clearInactiveSessions :: "int \<Rightarrow> storage \<Rightarrow> storage \<times> nat" where
  "clearInactiveSessions inactiveThresholdMs st =
     (let (now, st1) = newDate st
      in sweepInactive now inactiveThresholdMs (map fst (sessions st1)) st1 0)"

subsection \<open>Notions used to state the properties\<close>

definition wellFormed :: "storage \<Rightarrow> bool" where
  \<comment> \<open>what the \<open>sessions\<close> map is by construction: one entry per key, filed under its own id\<close>
  "wellFormed st =
     (distinct (map fst (sessions st))
      \<and> (\<forall>(k, s) \<in> set (sessions st). session_id s = k))"

definition lastN :: "nat \<Rightarrow> 'a list \<Rightarrow> 'a list" where
  \<comment> \<open>the last \<open>n\<close> elements, all of them when there are fewer\<close>
  "lastN n xs = drop (length xs - n) xs"

definition windowed :: "int \<Rightarrow> message list \<Rightarrow> message list" where
  \<comment> \<open>what \<open>trimHistory\<close> does to the message list of a session\<close>
  "windowed w ms = (if int (length ms) > w then sliceFrom (- w) ms else ms)"

definition wrapped :: "string \<Rightarrow> string \<Rightarrow> string \<Rightarrow> string \<Rightarrow> bool" where
  \<comment> \<open>\<open>content\<close> is \<open>pre\<close>, a dollar sign, the non-empty dollar-free text \<open>q\<close>, a dollar
     sign and \<open>post\<close>\<close>
  "wrapped content pre q post =
     (content = pre @ ''$'' @ q @ ''$'' @ post \<and> q \<noteq> [] \<and> CHR ''$'' \<notin> set q)"

definition inactive :: "int \<Rightarrow> int \<Rightarrow> session \<Rightarrow> bool" where
  \<comment> \<open>the test of the sweep: \<open>now - lastActive > inactiveThresholdMs\<close>\<close>
  "inactive now inactiveThresholdMs s = (now - lastActive (metadata s) > inactiveThresholdMs)"

definition clearedFrom :: "session \<Rightarrow> session \<Rightarrow> bool" where
  \<comment> \<open>\<open>s'\<close> is \<open>s\<close> with no messages and, possibly, another \<open>lastActive\<close>\<close>
  "clearedFrom s s' =
     (session_id s' = session_id s \<and> messages s' = []
      \<and> metadata s' = (metadata s)\<lparr>lastActive := lastActive (metadata s')\<rparr>)"

definition sweptSession :: "int \<Rightarrow> int \<Rightarrow> session option \<Rightarrow> session option \<Rightarrow> bool" where
  \<comment> \<open>how the sweep relates the entry of a key before (\<open>old\<close>) and after (\<open>new\<close>)\<close>
  "sweptSession now inactiveThresholdMs old new =
     (case old of
        None \<Rightarrow> new = None
      | Some s \<Rightarrow>
          if inactive now inactiveThresholdMs s
          then (case new of None \<Rightarrow> False | Some s' \<Rightarrow> clearedFrom s s')
          else new = Some s)"

section \<open>Retrieval context assembly (services/chatService.ts, RAGProcessingService)\<close>

text \<open>
  The vector store and the language model are inputs of the model: the three result
  lists of the query (entries may be null), the lookup \<open>getById\<close> of a chunk by its
  id (\<open>None\<close> when it is absent or the lookup fails) and the evaluator, a function from
  the rendered candidates and the question to its answer. A distance is a rational
  number; the subtraction \<open>1 - d\<close> is exact here and rounded in JavaScript.
\<close>

record chromaMetadata =
  meta_id :: string
  document_code :: string
  current_chunk :: int
  total_chunks :: int
  jenis :: string
  nomor :: int
  tahun :: int
  tentang :: string
  tanggal_ditetapkan :: string
  tanggal_berlaku :: string
  status :: string
  dasar_hukum :: "string list"
  view_link :: "string option"

record mergedChunk =
  chunk_content :: string
  chunk_metadata :: chromaMetadata
  docNum :: int
  similarity :: rat

record agentEvaluation =
  rationale :: string
  ids :: "int list"

record sourceRef =
  source_jenis :: string
  source_nomor :: int
  source_tahun :: int
  source_view_link :: "string option"

record ragResult =
  contextPrompt :: string
  result_rationale :: string
  sources :: "sourceRef list"

fun joinWith :: "string \<Rightarrow> string list \<Rightarrow> string" where
  \<comment> \<open>\<open>parts.join(sep)\<close>\<close>
  "joinWith sep [] = []"
| "joinWith sep [x] = x"
| "joinWith sep (x # y # rest) = x @ sep @ joinWith sep (y # rest)"

fun indexOf :: "int list \<Rightarrow> int \<Rightarrow> int" where
  \<comment> \<open>\<open>xs.indexOf(x)\<close>: the first position of \<open>x\<close>, or -1\<close>
  "indexOf [] x = - 1"
| "indexOf (y # ys) x =
     (if y = x then 0 else (let r = indexOf ys x in if r < 0 then - 1 else r + 1))"

definition nthOpt :: "'a list \<Rightarrow> nat \<Rightarrow> 'a option" where
  \<comment> \<open>\<open>xs[i]\<close>: undefined past the end\<close>
  "nthOpt xs i = (if i < length xs then Some (xs ! i) else None)"

definition notNull :: "'a option list \<Rightarrow> 'a list" where
  \<comment> \<open>\<open>xs.filter(x => x !== null)\<close>\<close>
  "notNull xs = List.map_filter (\<lambda>x. x) xs"

definition formatDocument :: "mergedChunk \<Rightarrow> int \<Rightarrow> string" where
  "formatDocument chunk n =
     (let meta = chunk_metadata chunk
      in ''['' @ numberToString n @ '']'' @ ''\<newline>''
         @ ''Jenis: '' @ jenis meta @ ''\<newline>''
         @ ''Nomor: '' @ numberToString (nomor meta) @ ''\<newline>''
         @ ''Tahun: '' @ numberToString (tahun meta) @ ''\<newline>''
         @ ''Tentang: '' @ tentang meta @ ''\<newline>''
         @ ''\<newline>''
         @ chunk_content chunk @ ''\<newline>''
         @ ''\<newline>''
         @ ''---'')"

definition expandChunk ::
  "(string \<Rightarrow> (string \<times> chromaMetadata) option) \<Rightarrow> string \<Rightarrow> chromaMetadata \<Rightarrow> string" where
  "expandChunk getById text meta =
     (if current_chunk meta \<ge> total_chunks meta - 1 then text
      else (case getById (document_code meta @ ''_'' @ numberToString (current_chunk meta + 1)) of
              None \<Rightarrow> text
            | Some nextChunk \<Rightarrow> mergeChunks text (fst nextChunk)))"

definition similarityOf :: "rat option \<Rightarrow> rat" where
  \<comment> \<open>\<open>distances[i] ? 1 - distances[i] : 0\<close>: undefined and 0 are falsy\<close>
  "similarityOf d = (case d of None \<Rightarrow> 0 | Some x \<Rightarrow> if x = 0 then 0 else 1 - x)"

definition mergedChunkAt ::
  "(string \<Rightarrow> (string \<times> chromaMetadata) option) \<Rightarrow> string list \<Rightarrow> chromaMetadata list
   \<Rightarrow> rat list \<Rightarrow> nat \<Rightarrow> mergedChunk option" where
  \<comment> \<open>one round of the expansion loop, for an index \<open>i\<close> below \<open>documents.length\<close>;
     \<open>None\<close> is \<open>continue\<close> (an empty text is falsy, a missing metadata is undefined)\<close>
  "mergedChunkAt getById documents metadatas distances i =
     (let text = documents ! i;
          metadata = nthOpt metadatas i;
          sim = similarityOf (nthOpt distances i)
      in case metadata of
           None \<Rightarrow> None
         | Some meta \<Rightarrow>
             if text = [] then None
             else Some \<lparr>chunk_content = expandChunk getById text meta, chunk_metadata = meta,
                        docNum = int i + 1, similarity = sim\<rparr>)"

definition expandAll ::
  "(string \<Rightarrow> (string \<times> chromaMetadata) option) \<Rightarrow> string list \<Rightarrow> chromaMetadata list
   \<Rightarrow> rat list \<Rightarrow> mergedChunk list" where
  "expandAll getById documents metadatas distances =
     List.map_filter (mergedChunkAt getById documents metadatas distances)
       [0 ..< length documents]"

definition sortBySimilarity :: "mergedChunk list \<Rightarrow> mergedChunk list" where
  \<comment> \<open>\<open>sort((a, b) => b.similarity - a.similarity)\<close>: descending and stable\<close>
  "sortBySimilarity chunks = sort_key (\<lambda>c. - similarity c) chunks"

definition formatAll :: "mergedChunk list \<Rightarrow> string" where
  \<comment> \<open>the candidates shown to the evaluator, numbered by their rank\<close>
  "formatAll chunks =
     joinWith ''\<newline>'' (map (\<lambda>(idx, chunk). formatDocument chunk (int idx + 1))
                            (enumerate 0 chunks))"

definition selectChunks :: "int list \<Rightarrow> mergedChunk list \<Rightarrow> mergedChunk list" where
  "selectChunks evaluationIds mergedChunks =
     (let selectedChunks = filter (\<lambda>chunk. docNum chunk \<in> set evaluationIds) mergedChunks
      in if length selectedChunks = 0 then selectedChunks @ mergedChunks else selectedChunks)"

definition finalDocNum :: "int list \<Rightarrow> mergedChunk \<Rightarrow> int" where
  "finalDocNum evaluationIds chunk = indexOf evaluationIds (docNum chunk) + 1"

definition finalContext :: "int list \<Rightarrow> mergedChunk list \<Rightarrow> string" where
  "finalContext evaluationIds selectedChunks =
     joinWith ''\<newline>''
       (map (\<lambda>chunk. formatDocument chunk (finalDocNum evaluationIds chunk)) selectedChunks)"

definition languageInstruction :: string where
  "languageInstruction =
     ''IMPORTANT INSTRUCTION / INSTRUKSI PENTING:'' @ ''\<newline>''
     @ ''Answer in the SAME LANGUAGE as the question below. If the question is in English, respond in English. If the question is in Indonesian, respond in Indonesian.'' @ ''\<newline>''
     @ ''Jawab dalam BAHASA YANG SAMA dengan pertanyaan di bawah. Jika pertanyaan dalam Bahasa Inggris, jawab dalam Bahasa Inggris. Jika pertanyaan dalam Bahasa Indonesia, jawab dalam Bahasa Indonesia.''"

definition wrapContext :: "string \<Rightarrow> string \<Rightarrow> string" where
  \<comment> \<open>the template of \<open>contextPrompt\<close>, around the body and the question\<close>
  "wrapContext body fixedGrammar =
     ''___begin_context___'' @ ''\<newline>''
     @ body @ ''\<newline>''
     @ ''___end_context___'' @ ''\<newline>''
     @ ''\<newline>''
     @ languageInstruction @ ''\<newline>''
     @ ''question/pertanyaan:'' @ ''\<newline>''
     @ ''$'' @ fixedGrammar @ ''$''"

definition sourceOf :: "mergedChunk \<Rightarrow> sourceRef" where
  "sourceOf chunk =
     \<lparr>source_jenis = jenis (chunk_metadata chunk), source_nomor = nomor (chunk_metadata chunk),
      source_tahun = tahun (chunk_metadata chunk),
      source_view_link = view_link (chunk_metadata chunk)\<rparr>"

definition isEnglishChar :: "char \<Rightarrow> bool" where
  \<comment> \<open>the character class \<open>[a-zA-Z\s\?\!\.,;:'"0-9\-]\<close>\<close>
  "isEnglishChar c =
     (let n = (of_char c :: nat)
      in (97 \<le> n \<and> n \<le> 122) \<or> (65 \<le> n \<and> n \<le> 90) \<or> isWhiteSpace c
         \<or> (48 \<le> n \<and> n \<le> 57) \<or> n \<in> {63, 33, 46, 44, 59, 58, 39, 34, 45})"

definition isEnglish :: "string \<Rightarrow> bool" where
  "isEnglish fixedGrammar =
     (let head = slice 0 100 (trim fixedGrammar) in head \<noteq> [] \<and> list_all isEnglishChar head)"

definition processRAGQuery ::
  "(string \<Rightarrow> (string \<times> chromaMetadata) option) \<Rightarrow> (string \<Rightarrow> string \<Rightarrow> agentEvaluation)
   \<Rightarrow> string option list \<Rightarrow> chromaMetadata option list \<Rightarrow> rat option list
   \<Rightarrow> string \<Rightarrow> string \<Rightarrow> ragResult" where
  "processRAGQuery getById evaluateChunks resultDocuments resultMetadatas resultDistances
       expandedQuery fixedGrammar =
     (let documents = notNull resultDocuments;
          metadatas = notNull resultMetadatas;
          distances = notNull resultDistances
      in if length documents = 0
         then (let noDocsMessage =
                     (if isEnglish fixedGrammar then ''No documents found.''
                      else ''Tidak ada dokumen yang ditemukan.'')
               in \<lparr>contextPrompt = wrapContext noDocsMessage fixedGrammar,
                   result_rationale = ''No documents found'', sources = []\<rparr>)
         else (let mergedChunks = sortBySimilarity (expandAll getById documents metadatas distances);
                   allFormattedDocs = formatAll mergedChunks;
                   evaluation = evaluateChunks allFormattedDocs expandedQuery;
                   selectedChunks = selectChunks (ids evaluation) mergedChunks
               in \<lparr>contextPrompt =
                     wrapContext (finalContext (ids evaluation) selectedChunks) fixedGrammar,
                   result_rationale = rationale evaluation,
                   sources = map sourceOf selectedChunks\<rparr>))"

definition rankedChunks ::
  "(string \<Rightarrow> (string \<times> chromaMetadata) option) \<Rightarrow> string option list
   \<Rightarrow> chromaMetadata option list \<Rightarrow> rat option list \<Rightarrow> mergedChunk list" where
  \<comment> \<open>the merged fragments of a query, in ranked order (\<open>mergedChunks\<close> after the sort)\<close>
  "rankedChunks getById resultDocuments resultMetadatas resultDistances =
     sortBySimilarity
       (expandAll getById (notNull resultDocuments) (notNull resultMetadatas)
          (notNull resultDistances))"

subsection \<open>Example data\<close>

definition perdaChunk :: "nat \<Rightarrow> chromaMetadata" where
  \<comment> \<open>example data: the metadata of chunk \<open>i\<close> of a regulation stored in three chunks\<close>
  "perdaChunk i =
     \<lparr>meta_id = ''PERDA5_'' @ numberToString (int i), document_code = ''PERDA5'',
      current_chunk = int i, total_chunks = 3, jenis = ''Perda'', nomor = 5, tahun = 2020,
      tentang = ''Sampah'', tanggal_ditetapkan = ''2020-01-02'', tanggal_berlaku = ''2020-02-01'',
      status = ''Berlaku'', dasar_hukum = [], view_link = None\<rparr>"

definition perdaStore :: "string \<Rightarrow> (string \<times> chromaMetadata) option" where
  \<comment> \<open>example data: a vector store that holds the three chunks\<close>
  "perdaStore i =
     (if i = ''PERDA5_0'' then Some (''setiap orang wajib'', perdaChunk 0)
      else if i = ''PERDA5_1'' then Some (''wajib memilah sampah'', perdaChunk 1)
      else if i = ''PERDA5_2'' then Some (''sampah rumah tangga'', perdaChunk 2)
      else None)"

definition selectsNothing :: "string \<Rightarrow> string \<Rightarrow> agentEvaluation" where
  \<comment> \<open>example data: an evaluator that answers \<open>ids: []\<close>\<close>
  "selectsNothing formattedChunks expandedQuery = \<lparr>rationale = ''none'', ids = []\<rparr>"

section \<open>Query router (services/chatService.ts, ChatService.routeQuery)\<close>

text \<open>
  The language model and \<open>JSON.parse\<close> are inputs of the model: the outcome of
  \<open>llm.invoke\<close> is the text of the response or the error it rejects with, and
  \<open>parse\<close> gives the value of a text, or \<open>None\<close> where \<open>JSON.parse\<close> throws a
  SyntaxError (the text is not valid JSON). A property that is not there reads as
  \<open>None\<close> (undefined). The client is built before the \<open>try\<close> block; the model starts
  at the call of the language model.
\<close>

datatype json =
  JNull | JBool bool | JNumber rat | JString string | JArray "json list"
  | JObject "(string \<times> json) list"

datatype exn = ModelError | SyntaxError | TypeError

record routeResult =
  action :: "json option"
  expanded_query :: "json option"
  rag_optimized_query :: "json option"
  fixed_grammar :: "json option"

definition dropNewline :: "string \<Rightarrow> string" where
  \<comment> \<open>the optional \<open>\n\<close> at the end of a fence pattern\<close>
  "dropNewline s = (case s of [] \<Rightarrow> [] | c # cs \<Rightarrow> if c = CHR 0x0A then cs else s)"

function removeFence :: "string \<Rightarrow> string \<Rightarrow> string" where
  \<comment> \<open>\<open>s.replace(/fence\n?/g, "")\<close> for a literal \<open>fence\<close>: matches are found from left to
     right and the search goes on after each match\<close>
  "removeFence fence [] = []"
| "removeFence fence (c # cs) =
     (if fence \<noteq> [] \<and> prefix fence (c # cs)
      then removeFence fence (dropNewline (drop (length fence) (c # cs)))
      else c # removeFence fence cs)"
  by pat_completeness auto
termination
proof (relation "measure (\<lambda>(fence, s). length s)")
  show "wf (measure (\<lambda>(fence, s). length s))" by simp
next
  fix fence :: string and c cs
  assume "fence \<noteq> [] \<and> prefix fence (c # cs)"
  then have "length (drop (length fence) (c # cs)) < length (c # cs)"
    by (cases fence) simp_all
  moreover have "length (dropNewline s) \<le> length s" for s
    by (simp add: dropNewline_def split: list.splits)
  ultimately have "length (dropNewline (drop (length fence) (c # cs))) < length (c # cs)"
    using le_less_trans by blast
  then show "((fence, dropNewline (drop (length fence) (c # cs))), fence, c # cs)
      \<in> measure (\<lambda>(fence, s). length s)"
    by simp
next
  fix fence :: string and c cs
  show "((fence, cs), fence, c # cs) \<in> measure (\<lambda>(fence, s). length s)" by simp
qed

definition jsonStringOf :: "string \<Rightarrow> string" where
  \<comment> \<open>the text handed to \<open>JSON.parse\<close>: the response trimmed, without code fences, trimmed\<close>
  "jsonStringOf response = trim (removeFence ''```'' (removeFence ''```json'' (trim response)))"

definition property :: "json \<Rightarrow> string \<Rightarrow> exn + json option" where
  \<comment> \<open>\<open>parsed.name\<close>: a TypeError on null, undefined on a value that is not an object\<close>
  "property parsed name =
     (case parsed of
        JNull \<Rightarrow> Inl TypeError
      | JObject members \<Rightarrow> Inr (map_of members name)
      | _ \<Rightarrow> Inr None)"

definition routeQueryTry :: "(string \<Rightarrow> json option) \<Rightarrow> exn + string \<Rightarrow> exn + routeResult" where
  \<comment> \<open>the \<open>try\<close> block\<close>
  "routeQueryTry parse response =
     (case response of
        Inl e \<Rightarrow> Inl e
      | Inr text \<Rightarrow>
          (case parse (jsonStringOf text) of
             None \<Rightarrow> Inl SyntaxError
           | Some parsed \<Rightarrow>
               (case (property parsed ''action'', property parsed ''expanded_query'',
                      property parsed ''rag_optimized_query'', property parsed ''fixed_grammar'') of
                  (Inr a, Inr e, Inr r, Inr f) \<Rightarrow>
                    Inr \<lparr>action = a, expanded_query = e, rag_optimized_query = r,
                         fixed_grammar = f\<rparr>
                | _ \<Rightarrow> Inl TypeError)))"

definition noRag :: routeResult where
  \<comment> \<open>\<open>{ action: "no_rag" }\<close>\<close>
  "noRag = \<lparr>action = Some (JString ''no_rag''), expanded_query = None,
            rag_optimized_query = None, fixed_grammar = None\<rparr>"

definition routeQuery :: "(string \<Rightarrow> json option) \<Rightarrow> exn + string \<Rightarrow> exn + routeResult" where
  \<comment> \<open>\<open>try { ... } catch (error) { return { action: "no_rag" } }\<close>; \<open>Inl\<close> would be an
     exception that leaves \<open>routeQuery\<close>\<close>
  "routeQuery parse response =
     (case routeQueryTry parse response of
        Inl error \<Rightarrow> Inr noRag
      | Inr result \<Rightarrow> Inr result)"

definition parsesOnlyNull :: "string \<Rightarrow> json option" where
  \<comment> \<open>example data: a parser for the single JSON text \<open>null\<close>\<close>
  "parsesOnlyNull s = (if s = ''null'' then Some JNull else None)"

section \<open>The reference list of the callers (app/api/chat/route.ts, app/api/webhook/route.ts)\<close>

definition referenceName :: "nat \<Rightarrow> sourceRef \<Rightarrow> string" where
  \<comment> \<open>app/api/chat/route.ts and app/api/webhook/route.ts: the label under which the callers
     list the source at index \<open>idx\<close> of \<open>sources\<close>\<close>
  "referenceName idx source =
     ''['' @ numberToString (int idx + 1) @ ''] '' @ source_jenis source @ '', ''
     @ numberToString (source_nomor source) @ '', '' @ numberToString (source_tahun source)"

section \<open>Properties of the hash\<close>

lemma storageHashLoop_eq: "storageHashLoop h s = hashLoop h s"
  by (induction s arbitrary: h) simp_all

lemma toInt32_range: "- (2 ^ 31) \<le> toInt32 x \<and> toInt32 x < 2 ^ 31"
  using sint_range_size [of "word_of_int x :: 32 word"]
  by (simp add: toInt32_def word_size)

text \<open>
  C10. The hash of the request utilities and the private hash of the session storage
  are the same function, and so are the connection fingerprints built from them at the
  two call sites.
\<close>

theorem C10_hashes_agree:
  "storageCreateSimpleHash str = createSimpleHash str
   \<and> storageFingerprint ip ua = getClientConnectionFingerprint ip ua"
  by (simp add: storageCreateSimpleHash_def createSimpleHash_def storageHashLoop_eq
      storageFingerprint_def getClientConnectionFingerprint_def)

section \<open>Properties of the chunk merge\<close>

lemma sliceFrom_neg: "0 < l \<Longrightarrow> sliceFrom (- int l) xs = drop (length xs - l) xs"
  by (auto simp: sliceFrom_def clampIndex_def max_def nat_diff_distrib')

lemma slice_take: "slice 0 (int l) xs = take l xs"
  by (simp add: slice_def clampIndex_def Let_def min_def)

lemma slice_drop_end: "0 < l \<Longrightarrow> slice 0 (- int l) xs = take (length xs - l) xs"
  by (auto simp: slice_def clampIndex_def Let_def max_def nat_diff_distrib')

lemma overlapSearch_le: "overlapSearch a b n \<le> n"
  by (induction n) (auto simp: Let_def)

lemma overlapSearch_hit: "0 < overlapSearch a b n \<Longrightarrow> overlapAt a b (overlapSearch a b n)"
  by (induction n) (auto simp: Let_def overlapAt_def sliceFrom_neg slice_take simp del: of_nat_Suc)

lemma overlapSearch_longest:
  "overlapSearch a b n < l \<Longrightarrow> l \<le> n \<Longrightarrow> \<not> overlapAt a b l"
proof (induction n)
  case 0
  then show ?case by simp
next
  case (Suc n)
  show ?case
  proof (cases "overlapAt a b (Suc n)")
    case True
    then have "overlapSearch a b (Suc n) = Suc n"
      by (simp add: Let_def overlapAt_def sliceFrom_neg slice_take del: of_nat_Suc)
    with Suc.prems show ?thesis by simp
  next
    case False
    then have same: "overlapSearch a b (Suc n) = overlapSearch a b n"
      by (simp add: Let_def overlapAt_def sliceFrom_neg slice_take del: of_nat_Suc)
    show ?thesis
    proof (cases "l = Suc n")
      case True
      with False show ?thesis by simp
    next
      case False
      with Suc.prems same Suc.IH show ?thesis by simp
    qed
  qed
qed

lemma findOverlap_le: "findOverlap A B \<le> min (length (trim A)) (length (trim B))"
  using overlapSearch_le [of "trim A" "trim B" "min (length (trim A)) (length (trim B))"]
  by (simp add: findOverlap_def Let_def)

lemma findOverlap_hit: "0 < findOverlap A B \<Longrightarrow> overlapAt (trim A) (trim B) (findOverlap A B)"
  by (simp add: findOverlap_def Let_def overlapSearch_hit)

lemma findOverlap_longest:
  "findOverlap A B < l \<Longrightarrow> l \<le> min (length (trim A)) (length (trim B))
   \<Longrightarrow> \<not> overlapAt (trim A) (trim B) l"
  unfolding findOverlap_def Let_def by (rule overlapSearch_longest)

lemma mergeChunks_eq:
  "mergeChunks A B =
     (if 0 < findOverlap A B then take (length (trim A) - findOverlap A B) (trim A) @ B
      else trim A @ '' '' @ B)"
  by (simp add: mergeChunks_def Let_def slice_drop_end)

lemma length_trim_le: "length (trim s) \<le> length s"
proof -
  have "length (trimEnd t) \<le> length t" for t
    using length_dropWhile_le [of isWhiteSpace "rev t"] by (simp add: trimEnd_def)
  moreover have "length (trimStart s) \<le> length s"
    by (simp add: trimStart_def length_dropWhile_le)
  ultimately show ?thesis
    unfolding trim_def using le_trans by blast
qed

text \<open>
  C3 (as amended). Both texts are trimmed before the search: \<open>findOverlap A B\<close> is the
  longest length, at most the shorter trimmed text, at which the end of the trimmed \<open>A\<close>
  equals the start of the trimmed \<open>B\<close> ignoring case. With an overlap the merged text
  is the trimmed \<open>A\<close> without its last \<open>L\<close> characters, followed by \<open>B\<close> as given;
  without one it is the trimmed \<open>A\<close>, a space and \<open>B\<close>. The two examples of the
  specification hold.
\<close>

theorem C3_merge_on_trimmed_texts:
  "findOverlap A B \<le> min (length (trim A)) (length (trim B))
   \<and> (0 < findOverlap A B \<longrightarrow> overlapAt (trim A) (trim B) (findOverlap A B))
   \<and> (\<forall>l. findOverlap A B < l \<and> l \<le> min (length (trim A)) (length (trim B))
          \<longrightarrow> \<not> overlapAt (trim A) (trim B) l)
   \<and> mergeChunks A B =
       (if 0 < findOverlap A B
        then take (length (trim A) - findOverlap A B) (trim A) @ B
        else trim A @ '' '' @ B)
   \<and> mergeChunks ''the quick brown'' ''brown fox jumps'' = ''the quick brown fox jumps''
   \<and> mergeChunks ''abc'' ''xyz'' = ''abc xyz''"
proof -
  have ex1: "mergeChunks ''the quick brown'' ''brown fox jumps'' = ''the quick brown fox jumps''"
    by code_simp
  have ex2: "mergeChunks ''abc'' ''xyz'' = ''abc xyz''"
    by code_simp
  show ?thesis
    using findOverlap_le [of A B] findOverlap_hit [of A B] findOverlap_longest [of A B]
      mergeChunks_eq [of A B] ex1 ex2
    by blast
qed

theorem C3_merge_on_trimmed_texts_witness:
  "findOverlap ''The quick Brown '' '' brown fox'' = 5
   \<and> overlapAt (trim ''The quick Brown '') (trim '' brown fox'') 5
   \<and> \<not> overlapAt (trim ''The quick Brown '') (trim '' brown fox'') 6
   \<and> mergeChunks ''The quick Brown '' '' brown fox'' = ''The quick  brown fox''"
proof -
  have n: "findOverlap ''The quick Brown '' '' brown fox'' = 5"
    by code_simp
  have t: "length (trim ''The quick Brown '') = 15" "length (trim '' brown fox'') = 9"
    by code_simp+
  have m: "take 10 (trim ''The quick Brown '') @ '' brown fox'' = ''The quick  brown fox''"
    by code_simp
  note inst = C3_merge_on_trimmed_texts [of "''The quick Brown ''" "'' brown fox''"]
  from inst have a: "overlapAt (trim ''The quick Brown '') (trim '' brown fox'') 5"
    by (simp add: n)
  from inst have "\<forall>l. 5 < l \<and> l \<le> 9
      \<longrightarrow> \<not> overlapAt (trim ''The quick Brown '') (trim '' brown fox'') l"
    by (simp add: n t)
  then have b: "\<not> overlapAt (trim ''The quick Brown '') (trim '' brown fox'') 6"
    by simp
  from inst have c: "mergeChunks ''The quick Brown '' '' brown fox''
      = take 10 (trim ''The quick Brown '') @ '' brown fox''"
    by (simp add: n t)
  from n a b c m show ?thesis by simp
qed

text \<open>
  The search on the texts as given finds no overlap between \<open>''ab ''\<close> and
  \<open>''bc''\<close>, so the claim as stated asks for \<open>''ab bc''\<close>; the code trims first,
  finds the overlap \<open>b\<close> and returns \<open>''abc''\<close>.
\<close>

theorem C3_counterexample:
  "overlapSearch ''ab '' ''bc'' (min (length ''ab '') (length ''bc'')) = 0
   \<and> mergeChunks ''ab '' ''bc'' = ''abc''
   \<and> ''abc'' \<noteq> trim ''ab '' @ '' '' @ ''bc''"
  by code_simp

text \<open>
  C8 (as amended). The merged text is the trimmed \<open>A\<close> without the detected overlap
  (its last \<open>findOverlap A B\<close> characters, which equal the start of the trimmed \<open>B\<close>
  ignoring case), a space when there is no overlap, and all of \<open>B\<close>; its length is at
  least the length of the trimmed \<open>A\<close> and at least the length of \<open>B\<close>.
\<close>

theorem C8_merge_keeps_trimmed_texts:
  "max (length (trim A)) (length B) \<le> length (mergeChunks A B)
   \<and> mergeChunks A B =
       take (length (trim A) - findOverlap A B) (trim A)
       @ (if findOverlap A B = 0 then '' '' else []) @ B
   \<and> toLowerCase (drop (length (trim A) - findOverlap A B) (trim A))
       = toLowerCase (take (findOverlap A B) (trim B))"
proof -
  let ?L = "findOverlap A B"
  have le: "?L \<le> length (trim A)" "?L \<le> length (trim B)"
    using findOverlap_le [of A B] by simp_all
  have leB: "?L \<le> length B"
    using le(2) length_trim_le [of B] by simp
  have shape: "mergeChunks A B =
       take (length (trim A) - ?L) (trim A) @ (if ?L = 0 then '' '' else []) @ B"
    by (simp add: mergeChunks_eq)
  have len: "max (length (trim A)) (length B) \<le> length (mergeChunks A B)"
    using le(1) leB by (auto simp: shape)
  have ov: "toLowerCase (drop (length (trim A) - ?L) (trim A)) = toLowerCase (take ?L (trim B))"
  proof (cases "?L = 0")
    case True
    then show ?thesis by (simp add: toLowerCase_def)
  next
    case False
    then show ?thesis using findOverlap_hit [of A B] by (simp add: overlapAt_def)
  qed
  from len shape ov show ?thesis by blast
qed

text \<open>
  The whitespace around \<open>A\<close> lies outside the overlap and is dropped, so the result can
  be shorter than \<open>A\<close>.
\<close>

theorem C8_counterexample:
  "length (mergeChunks ''ab   '' ''b'') < max (length ''ab   '') (length ''b'')"
  by code_simp

section \<open>Properties of the session storage\<close>

lemma newDate_frame [simp]:
  "sessions (snd (newDate st)) = sessions st"
  "userSessions (snd (newDate st)) = userSessions st"
  "maxMessages (snd (newDate st)) = maxMessages st"
  "clock (snd (newDate st)) = clock st"
  by (simp_all add: newDate_def)

lemma associateSessionWithUser_frame [simp]:
  "sessions (associateSessionWithUser k u st) = sessions st"
  "maxMessages (associateSessionWithUser k u st) = maxMessages st"
  "clock (associateSessionWithUser k u st) = clock st"
  by (simp_all add: associateSessionWithUser_def newDate_def Let_def split: option.splits)

lemma associateIfUser_frame [simp]:
  "sessions (associateIfUser k u st) = sessions st"
  "maxMessages (associateIfUser k u st) = maxMessages st"
  "clock (associateIfUser k u st) = clock st"
  by (simp_all add: associateIfUser_def split: option.splits)

lemma saveSession_sessions:
  "sessions (saveSession s st) =
     AList.update (session_id s)
       (s\<lparr>metadata := (metadata s)\<lparr>lastActive := clock st (reads st)\<rparr>\<rparr>) (sessions st)"
  by (simp add: saveSession_def newDate_def Let_def)

lemma saveSession_frame [simp]:
  "maxMessages (saveSession s st) = maxMessages st"
  "clock (saveSession s st) = clock st"
  by (simp_all add: saveSession_def newDate_def Let_def)

lemma createSession_frame [simp]:
  "maxMessages (snd (createSession k u a st)) = maxMessages st"
  "clock (snd (createSession k u a st)) = clock st"
  "sessions (snd (createSession k u a st)) = AList.update k (fst (createSession k u a st)) (sessions st)"
  "session_id (fst (createSession k u a st)) = k"
  "messages (fst (createSession k u a st)) = []"
  by (simp_all add: createSession_def newDate_def Let_def)

lemma in_set_update:
  "p \<in> set (AList.update k v al) \<Longrightarrow> p = (k, v) \<or> p \<in> set al"
  by (induction al) (auto split: if_splits)

lemma wellFormed_update:
  "wellFormed st \<Longrightarrow> session_id s = k \<Longrightarrow> sessions st' = AList.update k s (sessions st)
   \<Longrightarrow> wellFormed st'"
  unfolding wellFormed_def
  by (auto simp: distinct_update dest!: in_set_update)

lemma wellFormed_lookup: "wellFormed st \<Longrightarrow> getSession st k = Some s \<Longrightarrow> session_id s = k"
  unfolding wellFormed_def getSession_def by (auto dest: map_of_SomeD)

lemma wellFormed_newStorage: "wellFormed (newStorage n clk)"
  by (simp add: wellFormed_def newStorage_def)

lemma wellFormed_saveSession:
  "wellFormed st \<Longrightarrow> wellFormed (saveSession s st)"
  by (rule wellFormed_update [where k = "session_id s"
        and s = "s\<lparr>metadata := (metadata s)\<lparr>lastActive := clock st (reads st)\<rparr>\<rparr>"])
     (simp_all add: saveSession_sessions)

lemma wellFormed_createSession:
  "wellFormed st \<Longrightarrow> wellFormed (snd (createSession k u a st))"
  by (rule wellFormed_update [where k = k and s = "fst (createSession k u a st)"]) simp_all

lemma getSession_saveSession:
  "getSession (saveSession s st) k =
     (if k = session_id s
      then Some (s\<lparr>metadata := (metadata s)\<lparr>lastActive := clock st (reads st)\<rparr>\<rparr>)
      else getSession st k)"
  by (simp add: getSession_def saveSession_sessions update_conv')

lemma getSession_createSession:
  "getSession (snd (createSession k u a st)) k' =
     (if k' = k then Some (fst (createSession k u a st)) else getSession st k')"
  by (simp add: getSession_def update_conv')

lemma trimHistory_frame [simp]:
  "session_id (trimHistory st s) = session_id s"
  "metadata (trimHistory st s) = metadata s"
  by (simp_all add: trimHistory_def)

lemma messages_trimHistory: "messages (trimHistory st s) = windowed (maxMessages st) (messages s)"
  by (simp add: trimHistory_def windowed_def)

lemma wellFormed_addMessage: "wellFormed st \<Longrightarrow> wellFormed (addMessage k m st)"
  by (auto simp: addMessage_def Let_def split_beta wellFormed_saveSession wellFormed_createSession
      split: option.splits)

lemma maxMessages_addMessage [simp]: "maxMessages (addMessage k m st) = maxMessages st"
  by (simp add: addMessage_def Let_def split_beta split: option.splits)

lemma getMessages_addMessage:
  assumes "wellFormed st"
  shows "getMessages (addMessage k m st) k' =
     (if k' = k then windowed (maxMessages st) (getMessages st k @ [cleanMessage m])
      else getMessages st k')"
proof (cases "getSession st k")
  case None
  then show ?thesis
    by (simp add: addMessage_def getMessages_def Let_def split_beta getSession_saveSession
        getSession_createSession messages_trimHistory)
next
  case (Some s)
  with assms have "session_id s = k" by (rule wellFormed_lookup)
  with Some show ?thesis
    by (simp add: addMessage_def getMessages_def Let_def getSession_saveSession
        messages_trimHistory)
qed

lemma windowed_lastN: "0 < w \<Longrightarrow> windowed w ms = lastN (nat w) ms"
  by (auto simp: windowed_def lastN_def sliceFrom_def clampIndex_def max_def nat_diff_distrib')

lemma length_lastN: "length (lastN n xs) = min n (length xs)"
  by (simp add: lastN_def)

lemma lastN_all: "length xs \<le> n \<Longrightarrow> lastN n xs = xs"
  by (simp add: lastN_def)

lemma lastN_lastN_append: "lastN n (lastN n xs @ ys) = lastN n (xs @ ys)"
  by (cases "length xs \<le> n") (auto simp: lastN_def add.commute)

lemma getMessages_addMessages:
  assumes "wellFormed st" and "0 < maxMessages st"
    and "length (getMessages st sid) \<le> nat (maxMessages st)"
  shows "getMessages (addMessages calls st) sid =
           lastN (nat (maxMessages st))
             (getMessages st sid @ map (cleanMessage \<circ> snd) (filter (\<lambda>c. fst c = sid) calls))
         \<and> wellFormed (addMessages calls st)"
  using assms
proof (induction calls arbitrary: st)
  case Nil
  then show ?case by (simp add: lastN_all)
next
  case (Cons call calls)
  obtain k m where call: "call = (k, m)" by (cases call)
  let ?st1 = "addMessage k m st"
  let ?w = "nat (maxMessages st)"
  have wf1: "wellFormed ?st1" using Cons.prems(1) by (rule wellFormed_addMessage)
  have w1: "0 < maxMessages ?st1" using Cons.prems(2) by simp
  have msgs1: "getMessages ?st1 sid =
      (if sid = k then lastN ?w (getMessages st k @ [cleanMessage m]) else getMessages st sid)"
    using Cons.prems(1,2) by (simp add: getMessages_addMessage windowed_lastN)
  have len1: "length (getMessages ?st1 sid) \<le> nat (maxMessages ?st1)"
    using Cons.prems(3) by (simp add: msgs1 length_lastN)
  note ih = Cons.IH [OF wf1 w1 len1]
  show ?case
  proof (cases "sid = k")
    case True
    have "getMessages ?st1 k = lastN ?w (getMessages st k @ [cleanMessage m])"
      using msgs1 True by simp
    moreover have "lastN ?w (lastN ?w (getMessages st k @ [cleanMessage m]) @ rest)
        = lastN ?w (getMessages st k @ cleanMessage m # rest)" for rest
      using lastN_lastN_append [of ?w "getMessages st k @ [cleanMessage m]" rest] by simp
    ultimately show ?thesis
      using ih True by (simp add: call)
  next
    case False
    then show ?thesis
      using ih by (simp add: call msgs1)
  qed
qed

text \<open>
  C1. After any sequence of \<open>addMessage\<close> calls (to any sessions) on the exported
  storage, whose window \<open>maxMessages\<close> is 4, a session holds at most 4 messages, and they
  are the last 4 of the messages appended to it (the messages \<open>addMessage\<close> pushes), in
  the order of the calls: eviction is from the front, one message at a time. The same
  holds from every state of a storage with a window of at least 1 in which the session
  holds no more than the window: afterwards it holds the last \<open>maxMessages\<close> of what it
  held followed by what was appended.
\<close>

theorem C1_sliding_window:
  "length (getMessages (addMessages calls (sessionStorage clk)) sid) \<le> 4
   \<and> getMessages (addMessages calls (sessionStorage clk)) sid =
       lastN 4 (map (cleanMessage \<circ> snd) (filter (\<lambda>c. fst c = sid) calls))
   \<and> (wellFormed st \<and> 0 < maxMessages st
        \<and> length (getMessages st sid) \<le> nat (maxMessages st)
      \<longrightarrow> length (getMessages (addMessages calls st) sid) \<le> nat (maxMessages st)
        \<and> getMessages (addMessages calls st) sid =
            lastN (nat (maxMessages st))
              (getMessages st sid
               @ map (cleanMessage \<circ> snd) (filter (\<lambda>c. fst c = sid) calls)))"
proof -
  have general: "length (getMessages (addMessages calls s0) sid) \<le> nat (maxMessages s0)
      \<and> getMessages (addMessages calls s0) sid =
          lastN (nat (maxMessages s0))
            (getMessages s0 sid @ map (cleanMessage \<circ> snd) (filter (\<lambda>c. fst c = sid) calls))"
    if "wellFormed s0" and "0 < maxMessages s0"
      and "length (getMessages s0 sid) \<le> nat (maxMessages s0)" for s0
    using getMessages_addMessages [OF that, of calls] by (simp add: length_lastN)
  have wf: "wellFormed (sessionStorage clk)"
    by (simp add: sessionStorage_def wellFormed_newStorage)
  have w: "maxMessages (sessionStorage clk) = 4"
    by (simp add: sessionStorage_def newStorage_def)
  have e: "getMessages (sessionStorage clk) sid = []"
    by (simp add: sessionStorage_def getMessages_def getSession_def newStorage_def)
  have exported: "length (getMessages (addMessages calls (sessionStorage clk)) sid) \<le> 4
      \<and> getMessages (addMessages calls (sessionStorage clk)) sid =
          lastN 4 (map (cleanMessage \<circ> snd) (filter (\<lambda>c. fst c = sid) calls))"
    using general [of "sessionStorage clk"] wf by (simp add: w e length_lastN)
  from exported general [of st] show ?thesis by blast
qed

theorem C1_sliding_window_witness:
  "wellFormed (sessionStorage int) \<and> 0 < maxMessages (sessionStorage int)
   \<and> getMessages (sessionStorage int) ''s'' = []
   \<and> getMessages
        (addMessages
           [(''s'', HumanMessage ''one''), (''s'', AIMessage ''two''), (''t'', AIMessage ''other''),
            (''s'', HumanMessage ''three''), (''s'', AIMessage ''four''),
            (''s'', HumanMessage ''ctx $five$'')]
           (sessionStorage int)) ''s''
       = [AIMessage ''two'', HumanMessage ''three'', AIMessage ''four'', HumanMessage ''five'']"
proof -
  have wf: "wellFormed (sessionStorage int)"
    by (simp add: wellFormed_def sessionStorage_def newStorage_def)
  have w: "maxMessages (sessionStorage int) = 4"
    by (simp add: sessionStorage_def newStorage_def)
  have e: "getMessages (sessionStorage int) ''s'' = []"
    by (simp add: getMessages_def getSession_def sessionStorage_def newStorage_def)
  have r: "lastN 4
        ([] @ map (cleanMessage \<circ> snd) (filter (\<lambda>c. fst c = ''s'')
           [(''s'', HumanMessage ''one''), (''s'', AIMessage ''two''), (''t'', AIMessage ''other''),
            (''s'', HumanMessage ''three''), (''s'', AIMessage ''four''),
            (''s'', HumanMessage ''ctx $five$'')]))
      = [AIMessage ''two'', HumanMessage ''three'', AIMessage ''four'', HumanMessage ''five'']"
    by code_simp
  from C1_sliding_window [of
        "[(''s'', HumanMessage ''one''), (''s'', AIMessage ''two''), (''t'', AIMessage ''other''),
          (''s'', HumanMessage ''three''), (''s'', AIMessage ''four''),
          (''s'', HumanMessage ''ctx $five$'')]" int "''s''" "sessionStorage int"]
  have "wellFormed (sessionStorage int) \<and> 0 < maxMessages (sessionStorage int)
        \<and> length (getMessages (sessionStorage int) ''s'') \<le> nat (maxMessages (sessionStorage int))
      \<longrightarrow> getMessages
            (addMessages
               [(''s'', HumanMessage ''one''), (''s'', AIMessage ''two''), (''t'', AIMessage ''other''),
                (''s'', HumanMessage ''three''), (''s'', AIMessage ''four''),
                (''s'', HumanMessage ''ctx $five$'')]
               (sessionStorage int)) ''s''
          = lastN (nat (maxMessages (sessionStorage int)))
              (getMessages (sessionStorage int) ''s''
               @ map (cleanMessage \<circ> snd) (filter (\<lambda>c. fst c = ''s'')
                   [(''s'', HumanMessage ''one''), (''s'', AIMessage ''two''), (''t'', AIMessage ''other''),
                    (''s'', HumanMessage ''three''), (''s'', AIMessage ''four''),
                    (''s'', HumanMessage ''ctx $five$'')]))"
    by blast
  with wf have "getMessages
            (addMessages
               [(''s'', HumanMessage ''one''), (''s'', AIMessage ''two''), (''t'', AIMessage ''other''),
                (''s'', HumanMessage ''three''), (''s'', AIMessage ''four''),
                (''s'', HumanMessage ''ctx $five$'')]
               (sessionStorage int)) ''s''
          = lastN 4
              ([] @ map (cleanMessage \<circ> snd) (filter (\<lambda>c. fst c = ''s'')
                   [(''s'', HumanMessage ''one''), (''s'', AIMessage ''two''), (''t'', AIMessage ''other''),
                    (''s'', HumanMessage ''three''), (''s'', AIMessage ''four''),
                    (''s'', HumanMessage ''ctx $five$'')]))"
    by (simp add: w e)
  with wf w e show ?thesis
    by (simp only: r) simp
qed

text \<open>
  A remark on the constructor's parameter. The module builds no storage with a window
  of 0; in one, the trim would be \<open>slice(-0)\<close>, which is \<open>slice(0)\<close> and keeps the whole
  list.
\<close>

lemma zero_window_keeps_every_message:
  "getMessages (addMessages [(''s'', AIMessage ''hi'')] (newStorage 0 int)) ''s'' = [AIMessage ''hi'']"
  by code_simp

lemma run_before_dollar:
  assumes "CHR ''$'' \<notin> set q"
  shows "takeWhile (\<lambda>x. x \<noteq> CHR ''$'') (q @ CHR ''$'' # post) = q"
    and "dropWhile (\<lambda>x. x \<noteq> CHR ''$'') (q @ CHR ''$'' # post) = CHR ''$'' # post"
  using assms by (induction q) auto

lemma wrapped_at_head:
  assumes "wrapped (c # cs) [] q post"
  shows "c = CHR ''$'' \<and> takeWhile (\<lambda>x. x \<noteq> CHR ''$'') cs = q
         \<and> dropWhile (\<lambda>x. x \<noteq> CHR ''$'') cs = CHR ''$'' # post"
  using assms by (auto simp: wrapped_def run_before_dollar)

lemma wrapped_later:
  "wrapped (c # cs) (p # pre) q post \<longleftrightarrow> p = c \<and> wrapped cs pre q post"
  by (auto simp: wrapped_def)

lemma wrapped_from_runs:
  assumes "takeWhile (\<lambda>x. x \<noteq> CHR ''$'') cs \<noteq> []"
    and "dropWhile (\<lambda>x. x \<noteq> CHR ''$'') cs \<noteq> []"
  shows "\<exists>post. wrapped (CHR ''$'' # cs) [] (takeWhile (\<lambda>x. x \<noteq> CHR ''$'') cs) post"
proof -
  let ?P = "\<lambda>x. x \<noteq> CHR ''$''"
  from assms(2) have "\<not> ?P (hd (dropWhile ?P cs))" by (rule hd_dropWhile)
  with assms(2) obtain r where dr: "dropWhile ?P cs = CHR ''$'' # r"
    by (cases "dropWhile ?P cs") auto
  have "takeWhile ?P cs @ dropWhile ?P cs = cs" by simp
  then have split: "takeWhile ?P cs @ CHR ''$'' # r = cs" by (simp only: dr)
  have free: "CHR ''$'' \<notin> set (takeWhile ?P cs)"
    by (auto dest: set_takeWhileD)
  have "wrapped (CHR ''$'' # cs) [] (takeWhile ?P cs) r"
    unfolding wrapped_def using split assms(1) free by simp
  then show ?thesis ..
qed

lemma matchWrapped_head:
  assumes "wrapped (c # cs) [] q post"
  shows "matchWrapped (c # cs) = Some q"
  using wrapped_at_head [OF assms] assms by (simp add: wrapped_def Let_def)

lemma matchWrapped_None_iff:
  "matchWrapped content = None \<longleftrightarrow> (\<forall>pre q post. \<not> wrapped content pre q post)"
proof (induction content)
  case Nil
  then show ?case by (simp add: wrapped_def)
next
  case (Cons c cs)
  show ?case
  proof
    assume none: "matchWrapped (c # cs) = None"
    then have tail: "matchWrapped cs = None"
      by (simp add: Let_def split: if_splits)
    show "\<forall>pre q post. \<not> wrapped (c # cs) pre q post"
    proof (intro allI notI)
      fix pre q post
      assume w: "wrapped (c # cs) pre q post"
      show False
      proof (cases pre)
        case Nil
        with w have "wrapped (c # cs) [] q post" by simp
        then have "matchWrapped (c # cs) = Some q" by (rule matchWrapped_head)
        with none show False by simp
      next
        case (Cons p pre')
        with w have "wrapped cs pre' q post" by (simp add: wrapped_later)
        with tail Cons.IH show False by blast
      qed
    qed
  next
    assume no: "\<forall>pre q post. \<not> wrapped (c # cs) pre q post"
    have "\<not> wrapped cs pre q post" for pre q post
      using no [rule_format, of "c # pre" q post] by (simp add: wrapped_later)
    then have tail: "matchWrapped cs = None" using Cons.IH by blast
    have "\<not> (c = CHR ''$'' \<and> takeWhile (\<lambda>x. x \<noteq> CHR ''$'') cs \<noteq> []
              \<and> dropWhile (\<lambda>x. x \<noteq> CHR ''$'') cs \<noteq> [])"
      using wrapped_from_runs [of cs] no by blast
    with tail show "matchWrapped (c # cs) = None"
      by (auto simp: Let_def)
  qed
qed

lemma matchWrapped_Some_first:
  "matchWrapped content = Some q \<Longrightarrow>
     \<exists>pre post. wrapped content pre q post
       \<and> (\<forall>pre' q' post'. wrapped content pre' q' post' \<longrightarrow> length pre \<le> length pre')"
proof (induction content)
  case Nil
  then show ?case by simp
next
  case (Cons c cs)
  let ?b = "takeWhile (\<lambda>x. x \<noteq> CHR ''$'') cs"
  let ?r = "dropWhile (\<lambda>x. x \<noteq> CHR ''$'') cs"
  show ?case
  proof (cases "c = CHR ''$'' \<and> ?b \<noteq> [] \<and> ?r \<noteq> []")
    case True
    with Cons.prems have q: "q = ?b" by (simp add: Let_def)
    from True wrapped_from_runs [of cs] obtain post where "wrapped (c # cs) [] q post"
      unfolding q by blast
    then show ?thesis by (intro exI [of _ "[]"] exI [of _ post]) simp
  next
    case False
    with Cons.prems have tail: "matchWrapped cs = Some q"
      by (auto simp: Let_def split: if_splits)
    from Cons.IH [OF tail] obtain pre post where
      w: "wrapped cs pre q post" and
      first: "\<And>pre' q' post'. wrapped cs pre' q' post' \<Longrightarrow> length pre \<le> length pre'"
      by blast
    have "wrapped (c # cs) (c # pre) q post" using w by (simp add: wrapped_later)
    moreover have "length (c # pre) \<le> length pre'" if w': "wrapped (c # cs) pre' q' post'"
      for pre' q' post'
    proof (cases pre')
      case Nil
      with w' have "c = CHR ''$'' \<and> ?b = q' \<and> ?r = CHR ''$'' # post'"
        using wrapped_at_head by blast
      moreover from w' have "q' \<noteq> []" by (simp add: wrapped_def)
      ultimately have "c = CHR ''$'' \<and> ?b \<noteq> [] \<and> ?r \<noteq> []" by simp
      with False show ?thesis by blast
    next
      case (Cons p pre'')
      with w' have "wrapped cs pre'' q' post'" by (simp add: wrapped_later)
      then show ?thesis using first Cons by simp
    qed
    ultimately show ?thesis by blast
  qed
qed

lemma sublist_trim: "sublist m (trim q) \<Longrightarrow> sublist m q"
proof -
  have a: "sublist (trimStart q) q"
    by (simp add: trimStart_def)
  have "sublist (rev (trimEnd t)) (rev t)" for t
    by (simp add: trimEnd_def)
  then have b: "sublist (trimEnd t) t" for t
    by (simp add: sublist_rev)
  have "sublist (trim q) q"
    unfolding trim_def using a b [of "trimStart q"] sublist_order.order_trans by blast
  then show "sublist m (trim q) \<Longrightarrow> sublist m q"
    using sublist_order.order_trans by blast
qed


lemma lastN_last: "0 < n \<Longrightarrow> ys \<noteq> [] \<Longrightarrow> lastN n ys \<noteq> [] \<and> last (lastN n ys) = last ys"
proof -
  assume "0 < n" and "ys \<noteq> []"
  then have "length ys - n < length ys"
    by (cases ys) simp_all
  then show ?thesis
    by (simp add: lastN_def last_drop)
qed

lemma windowed_last:
  assumes "0 \<le> w"
  shows "windowed w (ms @ [m]) \<noteq> [] \<and> last (windowed w (ms @ [m])) = m"
proof (cases "w = 0")
  case True
  then show ?thesis by (simp add: windowed_def sliceFrom_def clampIndex_def)
next
  case False
  with assms have pos: "0 < w" by simp
  then show ?thesis
    using lastN_last [of "nat w" "ms @ [m]"] by (simp add: windowed_lastN)
qed

text \<open>
  C2 (as amended). A user message passed to \<open>addMessage\<close> is stored, as the newest
  message of the session, with the content \<open>extractQueryFromMessage\<close> gives. If the
  content holds a wrapped text (a dollar sign, a non-empty run of other characters, a dollar
  sign), the stored content is the first such run with the whitespace around it trimmed,
  so it contains a context marker only if that run does. If it holds none, the content is
  stored as it is, markers included. The example of the specification is stored as
  \<open>hello\<close>.
\<close>

theorem C2_redaction:
  assumes "wellFormed st" and "0 \<le> maxMessages st"
  shows "getMessages (addMessage sid (HumanMessage content) st) sid \<noteq> []
    \<and> last (getMessages (addMessage sid (HumanMessage content) st) sid)
        = HumanMessage (extractQueryFromMessage content)
    \<and> ((\<exists>pre q post. wrapped content pre q post) \<longrightarrow>
         (\<exists>pre q post. wrapped content pre q post
            \<and> (\<forall>pre' q' post'. wrapped content pre' q' post' \<longrightarrow> length pre \<le> length pre')
            \<and> extractQueryFromMessage content = trim q
            \<and> (\<forall>marker. sublist marker (extractQueryFromMessage content) \<longrightarrow> sublist marker q)))
    \<and> ((\<forall>pre q post. \<not> wrapped content pre q post) \<longrightarrow>
         extractQueryFromMessage content = content)
    \<and> extractQueryFromMessage
          ''___begin_context___\<newline>X\<newline>___end_context___\<newline>...\<newline>$hello$'' = ''hello''"
proof -
  let ?stored = "getMessages (addMessage sid (HumanMessage content) st) sid"
  have "?stored = windowed (maxMessages st)
          (getMessages st sid @ [HumanMessage (extractQueryFromMessage content)])"
    using assms(1) by (simp add: getMessages_addMessage cleanMessage_def)
  with assms(2) have stored: "?stored \<noteq> []"
      "last ?stored = HumanMessage (extractQueryFromMessage content)"
    by (simp_all add: windowed_last)
  have some: "\<exists>pre q post. wrapped content pre q post
            \<and> (\<forall>pre' q' post'. wrapped content pre' q' post' \<longrightarrow> length pre \<le> length pre')
            \<and> extractQueryFromMessage content = trim q
            \<and> (\<forall>marker. sublist marker (extractQueryFromMessage content) \<longrightarrow> sublist marker q)"
    if ex: "\<exists>pre q post. wrapped content pre q post"
  proof -
    from ex have "matchWrapped content \<noteq> None" by (simp add: matchWrapped_None_iff)
    then obtain q where q: "matchWrapped content = Some q" by blast
    then have e: "extractQueryFromMessage content = trim q"
      by (simp add: extractQueryFromMessage_def)
    from matchWrapped_Some_first [OF q] obtain pre post where
      "wrapped content pre q post"
      "\<forall>pre' q' post'. wrapped content pre' q' post' \<longrightarrow> length pre \<le> length pre'"
      by blast
    moreover have "\<forall>marker. sublist marker (extractQueryFromMessage content) \<longrightarrow> sublist marker q"
      unfolding e using sublist_trim by blast
    ultimately show ?thesis using e by blast
  qed
  have none: "extractQueryFromMessage content = content"
    if "\<forall>pre q post. \<not> wrapped content pre q post"
  proof -
    from that have "matchWrapped content = None" by (simp add: matchWrapped_None_iff)
    then show ?thesis by (simp add: extractQueryFromMessage_def)
  qed
  have example: "extractQueryFromMessage
      ''___begin_context___\<newline>X\<newline>___end_context___\<newline>...\<newline>$hello$'' = ''hello''"
    by code_simp
  from stored some none example show ?thesis by blast
qed

theorem C2_redaction_witness:
  "wellFormed (newStorage 4 int) \<and> 0 \<le> maxMessages (newStorage 4 int)
   \<and> wrapped ''ctx $$ what is $5?$ tail'' ''ctx $'' '' what is '' ''5?$ tail''
   \<and> last (getMessages (addMessage ''s'' (HumanMessage ''ctx $$ what is $5?$ tail'')
                              (newStorage 4 int)) ''s'')
       = HumanMessage ''what is''
   \<and> extractQueryFromMessage ''ctx $$ what is $5?$ tail'' = ''what is''
   \<and> extractQueryFromMessage ''no wrapper $$ here'' = ''no wrapper $$ here''"
proof -
  have wf: "wellFormed (newStorage 4 int)"
    by (simp add: wellFormed_def newStorage_def)
  have w: "0 \<le> maxMessages (newStorage 4 int)"
    by (simp add: newStorage_def)
  have wr: "wrapped ''ctx $$ what is $5?$ tail'' ''ctx $'' '' what is '' ''5?$ tail''"
    by code_simp
  have e: "extractQueryFromMessage ''ctx $$ what is $5?$ tail'' = ''what is''"
    by code_simp
  have n: "extractQueryFromMessage ''no wrapper $$ here'' = ''no wrapper $$ here''"
    by code_simp
  from C2_redaction [OF wf w, of "''s''" "''ctx $$ what is $5?$ tail''"]
  have "last (getMessages (addMessage ''s'' (HumanMessage ''ctx $$ what is $5?$ tail'')
                              (newStorage 4 int)) ''s'')
       = HumanMessage (extractQueryFromMessage ''ctx $$ what is $5?$ tail'')"
    by blast
  with wf w wr e n show ?thesis by simp
qed

text \<open>
  A user message with the context markers and no wrapped text is stored with its markers,
  and the wrapped text \<open>'' hello ''\<close> is stored trimmed, not as it stands.
\<close>

theorem C2_counterexample:
  "getMessages (addMessage ''s'' (HumanMessage ''___begin_context___\<newline>X\<newline>___end_context___'')
                  (newStorage 4 int)) ''s''
     = [HumanMessage ''___begin_context___\<newline>X\<newline>___end_context___'']
   \<and> sublist ''___begin_context___'' ''___begin_context___\<newline>X\<newline>___end_context___''
   \<and> wrapped ''$ hello $'' [] '' hello '' []
   \<and> getMessages (addMessage ''s'' (HumanMessage ''$ hello $'') (newStorage 4 int)) ''s''
     = [HumanMessage ''hello'']
   \<and> ''hello'' \<noteq> '' hello ''"
  by code_simp

lemma wellFormed_sessions_cong: "sessions st' = sessions st \<Longrightarrow> wellFormed st' = wellFormed st"
  by (simp add: wellFormed_def)

lemma clearedFrom_saved:
  "clearedFrom s (s\<lparr>messages := [], metadata := (metadata s)\<lparr>lastActive := t\<rparr>\<rparr>)"
  by (simp add: clearedFrom_def)

lemma sweepInactive_entry:
  assumes "wellFormed st" and "distinct ks"
  shows "(k \<notin> set ks \<longrightarrow> getSession (fst (sweepInactive now thr ks st n)) k = getSession st k)
     \<and> (k \<in> set ks \<longrightarrow>
          sweptSession now thr (getSession st k) (getSession (fst (sweepInactive now thr ks st n)) k))
     \<and> map fst (sessions (fst (sweepInactive now thr ks st n))) = map fst (sessions st)"
  using assms
proof (induction ks arbitrary: st n)
  case Nil
  then show ?case by simp
next
  case (Cons k0 ks)
  from Cons.prems have d: "distinct ks" and notin: "k0 \<notin> set ks" by simp_all
  show ?case
  proof (cases "getSession st k0")
    case None
    then have step: "sweepInactive now thr (k0 # ks) st n = sweepInactive now thr ks st n"
      by (simp add: getSession_def)
    from Cons.IH [OF Cons.prems(1) d, of n] None notin show ?thesis
      unfolding step by (auto simp: sweptSession_def)
  next
    case (Some s0)
    have id0: "session_id s0 = k0" using Cons.prems(1) Some by (rule wellFormed_lookup)
    show ?thesis
    proof (cases "inactive now thr s0")
      case False
      then have step: "sweepInactive now thr (k0 # ks) st n = sweepInactive now thr ks st n"
        using Some by (simp add: getSession_def inactive_def Let_def)
      from Cons.IH [OF Cons.prems(1) d, of n] Some notin False show ?thesis
        unfolding step by (auto simp: sweptSession_def)
    next
      case True
      let ?st1 = "saveSession (s0\<lparr>messages := []\<rparr>) st"
      let ?s1 = "s0\<lparr>messages := [], metadata := (metadata s0)\<lparr>lastActive := clock st (reads st)\<rparr>\<rparr>"
      have step: "sweepInactive now thr (k0 # ks) st n = sweepInactive now thr ks ?st1 (Suc n)"
        using Some True by (simp add: getSession_def inactive_def Let_def)
      have wf1: "wellFormed ?st1" using Cons.prems(1) by (rule wellFormed_saveSession)
      have look1: "getSession ?st1 k' = (if k' = k0 then Some ?s1 else getSession st k')" for k'
        by (simp add: getSession_saveSession id0)
      have keys1: "map fst (sessions ?st1) = map fst (sessions st)"
        using Some by (auto simp: saveSession_sessions update_keys id0 getSession_def
            dest!: map_of_SomeD intro: rev_image_eqI)
      note ih = Cons.IH [OF wf1 d, of "Suc n"]
      show ?thesis
      proof (cases "k = k0")
        case True
        with ih notin have "getSession (fst (sweepInactive now thr ks ?st1 (Suc n))) k0 = Some ?s1"
          by (simp add: look1)
        moreover have "sweptSession now thr (Some s0) (Some ?s1)"
          using \<open>inactive now thr s0\<close> by (simp add: sweptSession_def clearedFrom_def)
        ultimately show ?thesis
          using ih keys1 Some True unfolding step by simp
      next
        case False
        with ih keys1 show ?thesis
          unfolding step by (auto simp: look1)
      qed
    qed
  qed
qed


lemma clearInactiveSessions_entry:
  assumes "wellFormed st"
  shows "sweptSession (clock st (reads st)) thr (getSession st k)
           (getSession (fst (clearInactiveSessions thr st)) k)
         \<and> map fst (sessions (fst (clearInactiveSessions thr st))) = map fst (sessions st)"
proof -
  let ?st1 = "snd (newDate st)"
  let ?ks = "map fst (sessions ?st1)"
  let ?res = "sweepInactive (clock st (reads st)) thr ?ks ?st1 0"
  have res: "clearInactiveSessions thr st = ?res"
    by (simp add: clearInactiveSessions_def newDate_def)
  have wf1: "wellFormed ?st1"
    using assms by (simp add: wellFormed_sessions_cong [of ?st1 st])
  have d: "distinct ?ks"
    using assms by (simp add: wellFormed_def)
  have same: "getSession ?st1 k = getSession st k"
    by (simp add: getSession_def)
  note inv = sweepInactive_entry [OF wf1 d, where now = "clock st (reads st)" and thr = thr
      and n = 0 and k = k]
  show ?thesis
  proof (cases "k \<in> set ?ks")
    case True
    with inv show ?thesis unfolding res same by simp
  next
    case False
    then have "getSession st k = None"
      by (simp add: getSession_def map_of_eq_None_iff)
    with False inv show ?thesis
      unfolding res same by (simp add: sweptSession_def)
  qed
qed

text \<open>
  C9 (as amended). \<open>clearInactiveSessions\<close> reads the clock once (\<open>now\<close>). A session
  with \<open>now - lastActive > inactiveThresholdMs\<close> is left with no messages, the same id
  and the same metadata but for \<open>lastActive\<close>, which \<open>saveSession\<close> writes again; its
  creation time and user id are unchanged. Every other session is unchanged, and no
  session is added or removed.
\<close>

theorem C9_inactivity_sweep:
  assumes "wellFormed st"
  shows "(getSession st k = None \<longrightarrow> getSession (fst (clearInactiveSessions thr st)) k = None)
    \<and> (\<forall>s. getSession st k = Some s \<longrightarrow>
          (if clock st (reads st) - lastActive (metadata s) > thr
           then (\<exists>s'. getSession (fst (clearInactiveSessions thr st)) k = Some s'
                  \<and> session_id s' = session_id s
                  \<and> messages s' = []
                  \<and> metadata s' = (metadata s)\<lparr>lastActive := lastActive (metadata s')\<rparr>
                  \<and> createdAt (metadata s') = createdAt (metadata s)
                  \<and> userId (metadata s') = userId (metadata s))
           else getSession (fst (clearInactiveSessions thr st)) k = Some s))"
proof -
  let ?new = "getSession (fst (clearInactiveSessions thr st)) k"
  have sw: "sweptSession (clock st (reads st)) thr (getSession st k) ?new"
    using clearInactiveSessions_entry [OF assms] by blast
  show ?thesis
  proof (cases "getSession st k")
    case None
    with sw show ?thesis by (simp add: sweptSession_def)
  next
    case (Some s)
    show ?thesis
    proof (cases "inactive (clock st (reads st)) thr s")
      case False
      with sw Some show ?thesis by (simp add: sweptSession_def inactive_def)
    next
      case True
      with sw Some obtain s' where new: "?new = Some s'" and c: "clearedFrom s s'"
        by (auto simp: sweptSession_def split: option.splits)
      from c have m: "metadata s' = (metadata s)\<lparr>lastActive := lastActive (metadata s')\<rparr>"
        by (simp add: clearedFrom_def)
      have "createdAt (metadata s') = createdAt (metadata s)"
        "userId (metadata s') = userId (metadata s)"
        by (subst m, simp)+
      with c new m Some True show ?thesis
        by (simp add: clearedFrom_def inactive_def)
    qed
  qed
qed



theorem C9_inactivity_sweep_witness:
  "wellFormed (addMessages [(''s'', AIMessage ''hi''), (''t'', AIMessage ''yo'')] (newStorage 4 int))
   \<and> getMessages (addMessages [(''s'', AIMessage ''hi''), (''t'', AIMessage ''yo'')] (newStorage 4 int)) ''s'' = [AIMessage ''hi'']
   \<and> getMessages (fst (clearInactiveSessions 2 (addMessages [(''s'', AIMessage ''hi''), (''t'', AIMessage ''yo'')] (newStorage 4 int)))) ''s'' = []
   \<and> map_option (createdAt \<circ> metadata) (getSession (fst (clearInactiveSessions 2 (addMessages [(''s'', AIMessage ''hi''), (''t'', AIMessage ''yo'')] (newStorage 4 int)))) ''s'')
       = Some 0
   \<and> getMessages (fst (clearInactiveSessions 2 (addMessages [(''s'', AIMessage ''hi''), (''t'', AIMessage ''yo'')] (newStorage 4 int)))) ''t'' = [AIMessage ''yo'']"
proof -
  define st where
    "st = addMessages [(''s'', AIMessage ''hi''), (''t'', AIMessage ''yo'')] (newStorage 4 int)"
  let ?s = "\<lparr>session_id = ''s'', messages = [AIMessage ''hi''],
             metadata = \<lparr>userId = None, createdAt = 0, lastActive = 2, userAgent = None,
                         ipAddress = None, sessionType = general, custom = []\<rparr>\<rparr>"
  let ?t = "\<lparr>session_id = ''t'', messages = [AIMessage ''yo''],
             metadata = \<lparr>userId = None, createdAt = 3, lastActive = 5, userAgent = None,
                         ipAddress = None, sessionType = general, custom = []\<rparr>\<rparr>"
  have wf: "wellFormed st" unfolding st_def by code_simp
  have s: "getSession st ''s'' = Some ?s" unfolding st_def by code_simp
  have t: "getSession st ''t'' = Some ?t" unfolding st_def by code_simp
  have now: "clock st (reads st) = 6" unfolding st_def by code_simp
  from C9_inactivity_sweep [OF wf, of "''s''" 2] s
  have "if clock st (reads st) - lastActive (metadata ?s) > 2
     then (\<exists>s'. getSession (fst (clearInactiveSessions 2 st)) ''s'' = Some s'
            \<and> session_id s' = session_id ?s \<and> messages s' = []
            \<and> metadata s' = (metadata ?s)\<lparr>lastActive := lastActive (metadata s')\<rparr>
            \<and> createdAt (metadata s') = createdAt (metadata ?s)
            \<and> userId (metadata s') = userId (metadata ?s))
     else getSession (fst (clearInactiveSessions 2 st)) ''s'' = Some ?s"
    by blast
  then obtain s' where s': "getSession (fst (clearInactiveSessions 2 st)) ''s'' = Some s'"
      "messages s' = []" "createdAt (metadata s') = 0"
    by (auto simp: now)
  from C9_inactivity_sweep [OF wf, of "''t''" 2] t
  have "if clock st (reads st) - lastActive (metadata ?t) > 2
     then (\<exists>s'. getSession (fst (clearInactiveSessions 2 st)) ''t'' = Some s'
            \<and> session_id s' = session_id ?t \<and> messages s' = []
            \<and> metadata s' = (metadata ?t)\<lparr>lastActive := lastActive (metadata s')\<rparr>
            \<and> createdAt (metadata s') = createdAt (metadata ?t)
            \<and> userId (metadata s') = userId (metadata ?t))
     else getSession (fst (clearInactiveSessions 2 st)) ''t'' = Some ?t"
    by blast
  then have t': "getSession (fst (clearInactiveSessions 2 st)) ''t'' = Some ?t"
    by (simp add: now)
  from wf s s' t' show ?thesis
    unfolding st_def [symmetric] by (simp add: getMessages_def)
qed

text \<open>
  The metadata of a swept session is not unchanged: \<open>saveSession\<close> moves its
  \<open>lastActive\<close> (here from 2 to 7).
\<close>

theorem C9_counterexample:
  "map_option (lastActive \<circ> metadata) (getSession (addMessages [(''s'', AIMessage ''hi''), (''t'', AIMessage ''yo'')] (newStorage 4 int)) ''s'') = Some 2
   \<and> map_option (lastActive \<circ> metadata)
        (getSession (fst (clearInactiveSessions 2 (addMessages [(''s'', AIMessage ''hi''), (''t'', AIMessage ''yo'')] (newStorage 4 int)))) ''s'') = Some 7
   \<and> getMetadata (fst (clearInactiveSessions 2 (addMessages [(''s'', AIMessage ''hi''), (''t'', AIMessage ''yo'')] (newStorage 4 int)))) ''s'' \<noteq> getMetadata (addMessages [(''s'', AIMessage ''hi''), (''t'', AIMessage ''yo'')] (newStorage 4 int)) ''s''"
  by code_simp

section \<open>Properties of the retrieval context assembly\<close>

lemma indexOf_lower: "- 1 \<le> indexOf ys x"
  by (induction ys) (auto simp: Let_def)

lemma indexOf_absent: "x \<notin> set ys \<Longrightarrow> indexOf ys x = - 1"
  by (induction ys) (auto simp: Let_def)

lemma indexOf_present: "x \<in> set ys \<Longrightarrow> 0 \<le> indexOf ys x"
  by (induction ys) (auto simp: Let_def)

lemma sublist_joinWith:
  "x \<in> set xs \<Longrightarrow> sublist x (joinWith sep xs)"
proof (induction sep xs rule: joinWith.induct)
  case (1 sep)
  then show ?case by simp
next
  case (2 sep y)
  then show ?case by simp
next
  case (3 sep y z rest)
  show ?case
  proof (cases "x = y")
    case True
    then show ?thesis by simp
  next
    case False
    with 3 have "sublist x (joinWith sep (z # rest))" by simp
    moreover have "sublist (joinWith sep (z # rest)) ((y @ sep) @ joinWith sep (z # rest))"
      by (rule sublist_append_leftI)
    ultimately have "sublist x ((y @ sep) @ joinWith sep (z # rest))"
      using sublist_order.order_trans by blast
    then show ?thesis by simp
  qed
qed

lemma sublist_wrapContext: "sublist x body \<Longrightarrow> sublist x (wrapContext body q)"
proof -
  assume "sublist x body"
  moreover have "sublist body (wrapContext body q)"
    unfolding wrapContext_def
    by (metis append.assoc sublist_appendI)
  ultimately show ?thesis
    using sublist_order.order_trans by blast
qed

lemma sublist_content_formatDocument: "sublist (chunk_content c) (formatDocument c n)"
  unfolding formatDocument_def Let_def
  by (metis append.assoc sublist_appendI)

lemma selectChunks_empty_selection:
  "filter (\<lambda>chunk. docNum chunk \<in> set evaluationIds) mergedChunks = []
   \<Longrightarrow> selectChunks evaluationIds mergedChunks = mergedChunks"
  by (simp add: selectChunks_def)

lemma selectChunks_nonempty:
  "mergedChunks \<noteq> [] \<Longrightarrow> selectChunks evaluationIds mergedChunks \<noteq> []"
  by (simp add: selectChunks_def Let_def)

lemma expandAll_no_documents [simp]: "expandAll getById [] metadatas distances = []"
  by (simp add: expandAll_def map_filter_simps)

lemma sortBySimilarity_Nil_iff [simp]: "sortBySimilarity cs = [] \<longleftrightarrow> cs = []"
  by (metis length_0_conv length_sort sortBySimilarity_def)


lemma processRAGQuery_with_documents:
  assumes "notNull resultDocuments \<noteq> []"
  shows "processRAGQuery getById evaluateChunks resultDocuments resultMetadatas resultDistances
           expandedQuery fixedGrammar =
     (let mergedChunks = rankedChunks getById resultDocuments resultMetadatas resultDistances;
          evaluation = evaluateChunks (formatAll mergedChunks) expandedQuery;
          selectedChunks = selectChunks (ids evaluation) mergedChunks
      in \<lparr>contextPrompt =
            wrapContext (finalContext (ids evaluation) selectedChunks) fixedGrammar,
          result_rationale = rationale evaluation,
          sources = map sourceOf selectedChunks\<rparr>)"
  using assms by (simp add: processRAGQuery_def rankedChunks_def Let_def)

lemma rankedChunks_no_documents:
  "notNull resultDocuments = []
   \<Longrightarrow> rankedChunks getById resultDocuments resultMetadatas resultDistances = []"
  by (simp add: rankedChunks_def sortBySimilarity_def)

lemma finalContext_unselected:
  assumes "\<forall>c \<in> set chunks. docNum c \<notin> set evaluationIds"
  shows "finalContext evaluationIds chunks =
           joinWith ''\<newline>'' (map (\<lambda>chunk. formatDocument chunk 0) chunks)"
proof -
  have "map (\<lambda>chunk. formatDocument chunk (finalDocNum evaluationIds chunk)) chunks
        = map (\<lambda>chunk. formatDocument chunk 0) chunks"
    using assms by (intro map_cong) (simp_all add: finalDocNum_def indexOf_absent)
  then show ?thesis unfolding finalContext_def by (rule arg_cong)
qed

lemma empty_selection_falls_back:
  assumes "filter (\<lambda>chunk. docNum chunk
              \<in> set (ids (evaluateChunks
                    (formatAll (rankedChunks getById resultDocuments resultMetadatas resultDistances))
                    expandedQuery)))
             (rankedChunks getById resultDocuments resultMetadatas resultDistances) = []"
  shows "sources (processRAGQuery getById evaluateChunks resultDocuments resultMetadatas
                    resultDistances expandedQuery fixedGrammar)
           = map sourceOf (rankedChunks getById resultDocuments resultMetadatas resultDistances)
     \<and> (\<forall>c \<in> set (rankedChunks getById resultDocuments resultMetadatas resultDistances).
           sublist (formatDocument c 0)
             (contextPrompt (processRAGQuery getById evaluateChunks resultDocuments
                 resultMetadatas resultDistances expandedQuery fixedGrammar))
           \<and> sublist (chunk_content c)
             (contextPrompt (processRAGQuery getById evaluateChunks resultDocuments
                 resultMetadatas resultDistances expandedQuery fixedGrammar)))
     \<and> (rankedChunks getById resultDocuments resultMetadatas resultDistances \<noteq> [] \<longrightarrow>
           sources (processRAGQuery getById evaluateChunks resultDocuments resultMetadatas
                      resultDistances expandedQuery fixedGrammar) \<noteq> [])"
proof (cases "notNull resultDocuments = []")
  case True
  then have "rankedChunks getById resultDocuments resultMetadatas resultDistances = []"
    by (rule rankedChunks_no_documents)
  moreover from True have "sources (processRAGQuery getById evaluateChunks resultDocuments
      resultMetadatas resultDistances expandedQuery fixedGrammar) = []"
    by (simp add: processRAGQuery_def Let_def)
  ultimately show ?thesis by simp
next
  case False
  let ?merged = "rankedChunks getById resultDocuments resultMetadatas resultDistances"
  let ?ids = "ids (evaluateChunks (formatAll ?merged) expandedQuery)"
  let ?result = "processRAGQuery getById evaluateChunks resultDocuments resultMetadatas
      resultDistances expandedQuery fixedGrammar"
  have sel: "selectChunks ?ids ?merged = ?merged"
    using assms by (rule selectChunks_empty_selection)
  have none: "\<forall>c \<in> set ?merged. docNum c \<notin> set ?ids"
    using assms by (simp add: filter_empty_conv)
  have src: "sources ?result = map sourceOf ?merged"
    by (simp add: processRAGQuery_with_documents [OF False] Let_def sel)
  have ctx: "contextPrompt ?result =
      wrapContext (joinWith ''\<newline>'' (map (\<lambda>chunk. formatDocument chunk 0) ?merged)) fixedGrammar"
    by (simp add: processRAGQuery_with_documents [OF False] Let_def sel
        finalContext_unselected [OF none])
  have block: "sublist (formatDocument c 0) (contextPrompt ?result)" if "c \<in> set ?merged" for c
  proof -
    from that have "formatDocument c 0 \<in> set (map (\<lambda>chunk. formatDocument chunk 0) ?merged)"
      by (rule imageI [of c "set ?merged" "\<lambda>chunk. formatDocument chunk 0", simplified set_map [symmetric]])
    then have "sublist (formatDocument c 0)
        (joinWith ''\<newline>'' (map (\<lambda>chunk. formatDocument chunk 0) ?merged))"
      by (rule sublist_joinWith)
    then show ?thesis unfolding ctx by (rule sublist_wrapContext)
  qed
  have body: "sublist (chunk_content c) (contextPrompt ?result)" if "c \<in> set ?merged" for c
    using block [OF that] sublist_content_formatDocument [of c 0] sublist_order.order_trans
    by blast
  from src block body show ?thesis by simp
qed


text \<open>
  C4. When the selection is empty (no returned id names a merged fragment, as with
  \<open>ids: []\<close>), the sources are those of all merged fragments and the context prompt
  contains the block and the text of every merged fragment. Whatever the evaluator
  returns, merged fragments give a non-empty selection.
\<close>

theorem C4_empty_selection_uses_every_fragment:
  "(filter (\<lambda>chunk. docNum chunk
              \<in> set (ids (evaluateChunks
                    (formatAll (rankedChunks getById resultDocuments resultMetadatas resultDistances))
                    expandedQuery)))
      (rankedChunks getById resultDocuments resultMetadatas resultDistances) = []
    \<longrightarrow>
      sources (processRAGQuery getById evaluateChunks resultDocuments resultMetadatas
                 resultDistances expandedQuery fixedGrammar)
        = map sourceOf (rankedChunks getById resultDocuments resultMetadatas resultDistances)
      \<and> (\<forall>c \<in> set (rankedChunks getById resultDocuments resultMetadatas resultDistances).
            sublist (formatDocument c 0)
              (contextPrompt (processRAGQuery getById evaluateChunks resultDocuments
                  resultMetadatas resultDistances expandedQuery fixedGrammar))
            \<and> sublist (chunk_content c)
              (contextPrompt (processRAGQuery getById evaluateChunks resultDocuments
                  resultMetadatas resultDistances expandedQuery fixedGrammar))))
   \<and> (rankedChunks getById resultDocuments resultMetadatas resultDistances \<noteq> [] \<longrightarrow>
         sources (processRAGQuery getById evaluateChunks resultDocuments resultMetadatas
                    resultDistances expandedQuery fixedGrammar) \<noteq> [])"
proof -
  let ?merged = "rankedChunks getById resultDocuments resultMetadatas resultDistances"
  let ?result = "processRAGQuery getById evaluateChunks resultDocuments resultMetadatas
      resultDistances expandedQuery fixedGrammar"
  have "sources ?result \<noteq> []" if ne: "?merged \<noteq> []"
  proof -
    from ne have docs: "notNull resultDocuments \<noteq> []"
      using rankedChunks_no_documents by blast
    show ?thesis
      using selectChunks_nonempty [OF ne]
      by (simp add: processRAGQuery_with_documents [OF docs] Let_def)
  qed
  then show ?thesis
    using empty_selection_falls_back [of evaluateChunks getById resultDocuments resultMetadatas
        resultDistances expandedQuery fixedGrammar]
    by blast
qed

theorem C4_empty_selection_uses_every_fragment_witness:
  "ids (selectsNothing
          (formatAll (rankedChunks perdaStore [Some ''setiap orang wajib'', Some ''wajib memilah sampah'']
             [Some (perdaChunk 0), Some (perdaChunk 1)] [Some (1/8), Some (1/4)]))
          ''siapa yang wajib memilah sampah'') = []
   \<and> map chunk_content
        (rankedChunks perdaStore [Some ''setiap orang wajib'', Some ''wajib memilah sampah'']
           [Some (perdaChunk 0), Some (perdaChunk 1)] [Some (1/8), Some (1/4)])
       = [''setiap orang wajib memilah sampah'', ''wajib memilah sampah rumah tangga'']
   \<and> length (sources (processRAGQuery perdaStore selectsNothing
          [Some ''setiap orang wajib'', Some ''wajib memilah sampah'']
          [Some (perdaChunk 0), Some (perdaChunk 1)] [Some (1/8), Some (1/4)]
          ''siapa yang wajib memilah sampah'' ''who must sort waste?'')) = 2"
proof -
  define merged where "merged =
    rankedChunks perdaStore [Some ''setiap orang wajib'', Some ''wajib memilah sampah'']
      [Some (perdaChunk 0), Some (perdaChunk 1)] [Some (1/8), Some (1/4)]"
  have i: "ids (selectsNothing (formatAll merged) ''siapa yang wajib memilah sampah'') = []"
    by (simp add: selectsNothing_def)
  have m: "map chunk_content merged
      = [''setiap orang wajib memilah sampah'', ''wajib memilah sampah rumah tangga'']"
    unfolding merged_def by code_simp
  have "filter (\<lambda>chunk. docNum chunk
          \<in> set (ids (selectsNothing (formatAll merged) ''siapa yang wajib memilah sampah'')))
        merged = []"
    by (simp add: i)
  with C4_empty_selection_uses_every_fragment [of selectsNothing perdaStore
      "[Some ''setiap orang wajib'', Some ''wajib memilah sampah'']"
      "[Some (perdaChunk 0), Some (perdaChunk 1)]" "[Some (1/8), Some (1/4)]"
      "''siapa yang wajib memilah sampah''" "''who must sort waste?''"]
  have "sources (processRAGQuery perdaStore selectsNothing
          [Some ''setiap orang wajib'', Some ''wajib memilah sampah'']
          [Some (perdaChunk 0), Some (perdaChunk 1)] [Some (1/8), Some (1/4)]
          ''siapa yang wajib memilah sampah'' ''who must sort waste?'') = map sourceOf merged"
    unfolding merged_def by blast
  then have "length (sources (processRAGQuery perdaStore selectsNothing
          [Some ''setiap orang wajib'', Some ''wajib memilah sampah'']
          [Some (perdaChunk 0), Some (perdaChunk 1)] [Some (1/8), Some (1/4)]
          ''siapa yang wajib memilah sampah'' ''who must sort waste?'')) = length (map chunk_content merged)"
    by simp
  with i m show ?thesis
    unfolding merged_def by simp
qed

lemma indexOf_nth: "distinct ys \<Longrightarrow> k < length ys \<Longrightarrow> indexOf ys (ys ! k) = int k"
proof (induction ys arbitrary: k)
  case Nil
  then show ?case by simp
next
  case (Cons y ys)
  show ?case
  proof (cases k)
    case 0
    then show ?thesis by simp
  next
    case (Suc j)
    with Cons.prems have j: "j < length ys" and ne: "y \<noteq> ys ! j" and d: "distinct ys"
      by auto
    from Cons.IH [OF d j] have "indexOf ys (ys ! j) = int j" .
    with ne Suc show ?thesis by (simp add: Let_def)
  qed
qed

lemma finalDocNum_sequential:
  assumes "distinct evaluationIds" and "map docNum chunks = evaluationIds"
  shows "map (finalDocNum evaluationIds) chunks = map (\<lambda>k. int k + 1) [0 ..< length chunks]"
proof (rule nth_equalityI)
  show "length (map (finalDocNum evaluationIds) chunks)
      = length (map (\<lambda>k. int k + 1) [0 ..< length chunks])"
    by simp
next
  fix k
  assume "k < length (map (finalDocNum evaluationIds) chunks)"
  then have k: "k < length chunks" by simp
  with assms(2) have "docNum (chunks ! k) = evaluationIds ! k" and "k < length evaluationIds"
    by (auto simp: nth_map [symmetric] simp del: nth_map)
  with assms(1) have "indexOf evaluationIds (docNum (chunks ! k)) = int k"
    by (simp add: indexOf_nth)
  with k show "map (finalDocNum evaluationIds) chunks ! k
      = map (\<lambda>k. int k + 1) [0 ..< length chunks] ! k"
    by (simp add: finalDocNum_def)
qed

text \<open>
  C5, on the code. The header number of a rendered fragment is the position of its
  \<open>docNum\<close> in the evaluator's list, plus one (\<open>finalDocNum_sequential\<close>: the numbers
  are 1 to N in rendered order when the list names the rendered fragments in their order,
  without repetition). In the fallback the list is empty, the position is -1 and every
  fragment is rendered under \<open>[0]\<close>, while the callers list its source under \<open>[1]\<close>; for
  the list \<open>[2, 1]\<close> the fragments, rendered in ranked order, carry the numbers 2 and 1.
\<close>

theorem C5_numbers_follow_the_evaluator_list:
  "finalDocNum [] chunk = 0
   \<and> selectChunks [] mergedChunks = mergedChunks
   \<and> take 3 (formatDocument chunk (finalDocNum [] chunk)) = ''[0]''
   \<and> finalContext (ids (selectsNothing formatted question))
        (selectChunks (ids (selectsNothing formatted question))
           (rankedChunks perdaStore [Some ''sampah rumah tangga''] [Some (perdaChunk 2)] [Some (1/8)]))
       = ''[0]\<newline>Jenis: Perda\<newline>Nomor: 5\<newline>Tahun: 2020\<newline>Tentang: Sampah\<newline>\<newline>sampah rumah tangga\<newline>\<newline>---''
   \<and> map (\<lambda>(idx, source). referenceName idx source)
        (enumerate 0 (map sourceOf
           (selectChunks []
              (rankedChunks perdaStore [Some ''sampah rumah tangga''] [Some (perdaChunk 2)]
                 [Some (1/8)]))))
       = [''[1] Perda, 5, 2020'']
   \<and> map (finalDocNum [2, 1])
        (selectChunks [2, 1]
           (rankedChunks perdaStore [Some ''sampah rumah tangga'', Some ''sampah'']
              [Some (perdaChunk 2), Some (perdaChunk 2)] [Some (1/8), Some (1/4)]))
       = [2, 1]"
proof -
  have r: "map (\<lambda>(idx, source). referenceName idx source)
        (enumerate 0 (map sourceOf
           (selectChunks []
              (rankedChunks perdaStore [Some ''sampah rumah tangga''] [Some (perdaChunk 2)]
                 [Some (1/8)]))))
       = [''[1] Perda, 5, 2020'']"
    by code_simp
  have a: "finalDocNum [] chunk = 0"
    by (simp add: finalDocNum_def)
  have b: "selectChunks [] mergedChunks = mergedChunks"
    by (simp add: selectChunks_def)
  have "numberToString 0 = ''0''"
    by code_simp
  then have c: "take 3 (formatDocument chunk (finalDocNum [] chunk)) = ''[0]''"
    by (simp add: a formatDocument_def Let_def)
  have d: "finalContext (ids (selectsNothing formatted question))
        (selectChunks (ids (selectsNothing formatted question))
           (rankedChunks perdaStore [Some ''sampah rumah tangga''] [Some (perdaChunk 2)] [Some (1/8)]))
       = ''[0]\<newline>Jenis: Perda\<newline>Nomor: 5\<newline>Tahun: 2020\<newline>Tentang: Sampah\<newline>\<newline>sampah rumah tangga\<newline>\<newline>---''"
    unfolding selectsNothing_def agentEvaluation.simps by code_simp
  have e: "map (finalDocNum [2, 1])
        (selectChunks [2, 1]
           (rankedChunks perdaStore [Some ''sampah rumah tangga'', Some ''sampah'']
              [Some (perdaChunk 2), Some (perdaChunk 2)] [Some (1/8), Some (1/4)]))
       = [2, 1]"
    by code_simp
  from a b c d r e show ?thesis by blast
qed

text \<open>
  C6, on the code. A distance of 0 is falsy and gives the similarity 0, not \<open>1 - 0\<close>.
  The distances are filtered for null apart from the documents, so a hit without a
  distance takes the distance of the next hit (here \<open>3/4\<close> from the distance \<open>1/4\<close> of
  the second hit, which is left with 0).
\<close>

theorem C6_zero_distance_counts_as_missing:
  "similarityOf (Some 0) = 0
   \<and> map similarity
        (rankedChunks getById [Some ''sampah rumah tangga''] [Some (perdaChunk 2)] [Some 0]) = [0]
   \<and> map similarity
        (rankedChunks getById [Some ''sampah rumah tangga'', Some ''sampah'']
           [Some (perdaChunk 2), Some (perdaChunk 2)] [None, Some (1/4)]) = [3/4, 0]"
proof -
  have a: "similarityOf (Some 0) = 0"
    by (simp add: similarityOf_def)
  have b: "map similarity
        (rankedChunks getById [Some ''sampah rumah tangga''] [Some (perdaChunk 2)] [Some 0]) = [0]"
    by (simp add: rankedChunks_def sortBySimilarity_def expandAll_def notNull_def
        map_filter_simps mergedChunkAt_def nthOpt_def similarityOf_def)
  have c: "map similarity
        (rankedChunks getById [Some ''sampah rumah tangga'', Some ''sampah'']
           [Some (perdaChunk 2), Some (perdaChunk 2)] [None, Some (1/4)]) = [3/4, 0]"
    by (simp add: rankedChunks_def sortBySimilarity_def expandAll_def notNull_def
        map_filter_simps mergedChunkAt_def nthOpt_def similarityOf_def upt_rec)
  from a b c show ?thesis by blast
qed

section \<open>Properties of the query router\<close>

text \<open>
  C7. When the response of the language model, trimmed and without its code fences, is
  not valid JSON, \<open>routeQuery\<close> returns \<open>{action: "no_rag"}\<close>; so it does when the
  model call fails; and no response makes \<open>routeQuery\<close> throw.
\<close>

theorem C7_router_fails_safe:
  "(parse (jsonStringOf text) = None \<longrightarrow> routeQuery parse (Inr text) = Inr noRag)
   \<and> routeQuery parse (Inl error) = Inr noRag
   \<and> (\<exists>result. routeQuery parse response = Inr result)"
proof -
  have a: "routeQuery parse (Inr text) = Inr noRag" if "parse (jsonStringOf text) = None"
    using that by (simp add: routeQuery_def routeQueryTry_def)
  have b: "routeQuery parse (Inl error) = Inr noRag"
    by (simp add: routeQuery_def routeQueryTry_def)
  have c: "\<exists>result. routeQuery parse response = Inr result"
    by (cases "routeQueryTry parse response") (simp_all add: routeQuery_def)
  from a b c show ?thesis by blast
qed

theorem C7_router_fails_safe_witness:
  "jsonStringOf ''```json\<newline>Maaf, saya tidak yakin.\<newline>```'' = ''Maaf, saya tidak yakin.''
   \<and> parsesOnlyNull ''Maaf, saya tidak yakin.'' = None
   \<and> routeQuery parsesOnlyNull (Inr ''```json\<newline>Maaf, saya tidak yakin.\<newline>```'') = Inr noRag"
proof -
  have j: "jsonStringOf ''```json\<newline>Maaf, saya tidak yakin.\<newline>```'' = ''Maaf, saya tidak yakin.''"
    by code_simp
  have p: "parsesOnlyNull ''Maaf, saya tidak yakin.'' = None"
    by code_simp
  from j p have "parsesOnlyNull (jsonStringOf ''```json\<newline>Maaf, saya tidak yakin.\<newline>```'') = None"
    by simp
  with C7_router_fails_safe [of parsesOnlyNull "''```json\<newline>Maaf, saya tidak yakin.\<newline>```''"]
  have "routeQuery parsesOnlyNull (Inr ''```json\<newline>Maaf, saya tidak yakin.\<newline>```'') = Inr noRag"
    by blast
  with j p show ?thesis by simp
qed

end
